theory Spec2Isabelle
  imports Complex_Main "HOL-Library.Multiset" "HOL-Library.Sublist"
begin

section \<open>Numbers\<close>

text \<open>
  The vectors of \<^verbatim>\<open>src/05-vector-stores.ts\<close> are arrays of JavaScript numbers. A number is
  modelled as a real, one of the two infinities, or NaN. Arithmetic on finite numbers is
  exact: rounding, overflow, underflow and the sign of zero are not modelled (a zero
  divisor counts as \<open>+0\<close>). The special values follow IEEE 754 as JavaScript has it:
  NaN is contagious, \<open>0/0\<close>, \<open>\<infinity> - \<infinity>\<close>, \<open>0 * \<infinity>\<close> and \<open>\<infinity>/\<infinity>\<close> are NaN, \<open>x/0\<close> is an
  infinity for \<open>x \<noteq> 0\<close>, and every comparison with NaN is false.
\<close>

datatype number = NaN | PosInf | NegInf | Fin real

instantiation number :: "{plus, minus, times, inverse, ord}"
begin

fun plus_number :: "number \<Rightarrow> number \<Rightarrow> number" where
  "plus_number NaN y = NaN"
| "plus_number x NaN = NaN"
| "plus_number (Fin x) (Fin y) = Fin (x + y)"
| "plus_number PosInf NegInf = NaN"
| "plus_number NegInf PosInf = NaN"
| "plus_number PosInf y = PosInf"
| "plus_number x PosInf = PosInf"
| "plus_number NegInf y = NegInf"
| "plus_number x NegInf = NegInf"

fun minus_number :: "number \<Rightarrow> number \<Rightarrow> number" where
  "minus_number NaN y = NaN"
| "minus_number x NaN = NaN"
| "minus_number (Fin x) (Fin y) = Fin (x - y)"
| "minus_number PosInf PosInf = NaN"
| "minus_number NegInf NegInf = NaN"
| "minus_number PosInf y = PosInf"
| "minus_number x PosInf = NegInf"
| "minus_number NegInf y = NegInf"
| "minus_number x NegInf = PosInf"

fun times_number :: "number \<Rightarrow> number \<Rightarrow> number" where
  "times_number NaN y = NaN"
| "times_number x NaN = NaN"
| "times_number (Fin x) (Fin y) = Fin (x * y)"
| "times_number (Fin x) PosInf = (if x = 0 then NaN else if 0 < x then PosInf else NegInf)"
| "times_number (Fin x) NegInf = (if x = 0 then NaN else if 0 < x then NegInf else PosInf)"
| "times_number PosInf (Fin y) = (if y = 0 then NaN else if 0 < y then PosInf else NegInf)"
| "times_number NegInf (Fin y) = (if y = 0 then NaN else if 0 < y then NegInf else PosInf)"
| "times_number PosInf PosInf = PosInf"
| "times_number PosInf NegInf = NegInf"
| "times_number NegInf PosInf = NegInf"
| "times_number NegInf NegInf = PosInf"

fun divide_number :: "number \<Rightarrow> number \<Rightarrow> number" where
  "divide_number NaN y = NaN"
| "divide_number x NaN = NaN"
| "divide_number (Fin x) (Fin y) =
     (if y = 0 then (if x = 0 then NaN else if 0 < x then PosInf else NegInf)
      else Fin (x / y))"
| "divide_number (Fin x) y = Fin 0"
| "divide_number PosInf (Fin y) = (if 0 \<le> y then PosInf else NegInf)"
| "divide_number NegInf (Fin y) = (if 0 \<le> y then NegInf else PosInf)"
| "divide_number x y = NaN"

fun inverse_number :: "number \<Rightarrow> number" where
  "inverse_number NaN = NaN"
| "inverse_number (Fin x) = (if x = 0 then PosInf else Fin (1 / x))"
| "inverse_number x = Fin 0"

fun less_number :: "number \<Rightarrow> number \<Rightarrow> bool" where
  "less_number NaN y = False"
| "less_number x NaN = False"
| "less_number (Fin x) (Fin y) = (x < y)"
| "less_number x NegInf = False"
| "less_number NegInf y = True"
| "less_number PosInf y = False"
| "less_number x PosInf = True"

definition less_eq_number :: "number \<Rightarrow> number \<Rightarrow> bool" where
  "less_eq_number (x::number) y = (x \<noteq> NaN \<and> y \<noteq> NaN \<and> (x = y \<or> x < y))"

instance ..

end

text \<open>\<^verbatim>\<open>Math.sqrt\<close>: NaN below zero.\<close>

fun Math_sqrt :: "number \<Rightarrow> number" where
  "Math_sqrt (Fin x) = (if x < 0 then NaN else Fin (sqrt x))"
| "Math_sqrt PosInf = PosInf"
| "Math_sqrt x = NaN"

text \<open>The strict equality \<^verbatim>\<open>===\<close> of two numbers: NaN equals nothing, itself included.\<close>

definition strict_eq :: "number \<Rightarrow> number \<Rightarrow> bool" where
  "strict_eq x y = (x \<noteq> NaN \<and> y \<noteq> NaN \<and> x = y)"

section \<open>Arrays\<close>

text \<open>
  \<^verbatim>\<open>xs.reduce((acc, x, i) => f(acc, x, i), init)\<close>: a left fold that also hands the
  index to the callback.
\<close>

fun reduce_from :: "nat \<Rightarrow> ('b \<Rightarrow> 'a \<Rightarrow> nat \<Rightarrow> 'b) \<Rightarrow> 'b \<Rightarrow> 'a list \<Rightarrow> 'b" where
  "reduce_from i f acc [] = acc"
| "reduce_from i f acc (x # xs) = reduce_from (Suc i) f (f acc x i) xs"

definition reduce :: "('b \<Rightarrow> 'a \<Rightarrow> nat \<Rightarrow> 'b) \<Rightarrow> 'b \<Rightarrow> 'a list \<Rightarrow> 'b" where
  "reduce f init xs = reduce_from 0 f init xs"

text \<open>
  \<^verbatim>\<open>b[i]\<close> read as an operand of arithmetic: past the end the array yields
  \<^verbatim>\<open>undefined\<close>, which converts to NaN.
\<close>

definition elem_at :: "number list \<Rightarrow> nat \<Rightarrow> number" where
  "elem_at b i = (if i < length b then b ! i else NaN)"

section \<open>Cosine similarity\<close>

text \<open>
  \<^verbatim>\<open>InMemoryVectorStore.cosineSimilarity\<close> (and the identical method of
  \<^verbatim>\<open>SimpleRAG\<close>). Nothing is checked: no length comparison, no test for a zero
  magnitude.
\<close>

definition cosineSimilarity :: "number list \<Rightarrow> number list \<Rightarrow> number" where
  "cosineSimilarity a b =
     (let dotProduct = reduce (\<lambda>sum ai i. sum + ai * elem_at b i) (Fin 0) a;
          magnitudeA = Math_sqrt (reduce (\<lambda>sum ai i. sum + ai * ai) (Fin 0) a);
          magnitudeB = Math_sqrt (reduce (\<lambda>sum bi i. sum + bi * bi) (Fin 0) b)
      in dotProduct / (magnitudeA * magnitudeB))"

text \<open>The magnitude (norm) that \<^verbatim>\<open>cosineSimilarity\<close> computes for each argument.\<close>

definition magnitude :: "number list \<Rightarrow> number" where
  "magnitude a = Math_sqrt (reduce (\<lambda>sum ai i. sum + ai * ai) (Fin 0) a)"

section \<open>The Ollama client\<close>

text \<open>
  Every class of the file talks to one module-level client, \<^verbatim>\<open>ollama\<close>. Its two
  calls are parameters of the model: \<open>ollama_embeddings model prompt\<close> is the
  \<^verbatim>\<open>embedding\<close> field of the response to \<^verbatim>\<open>ollama.embeddings({model, prompt})\<close>,
  \<open>ollama_chat model content\<close> the \<^verbatim>\<open>message.content\<close> of the response to
  \<^verbatim>\<open>ollama.chat\<close> with the single user message \<open>content\<close>. A rejected promise is
  the value \<open>Inl e\<close>; \<^verbatim>\<open>await\<close> rethrows it, so the calling method ends with the
  same \<open>e\<close>. The two other errors are the ones the JavaScript runtime raises itself.
\<close>

datatype error = ProviderError string | TypeError | RangeError

record ollama_client =
  ollama_embeddings :: "string \<Rightarrow> string \<Rightarrow> error + number list"
  ollama_chat :: "string \<Rightarrow> string \<Rightarrow> error + string"

section \<open>InMemoryVectorStore\<close>

text \<open>
  The metadata of an entry is typed \<^verbatim>\<open>any\<close> and used as an object: a mapping from
  keys to values. The field \<^verbatim>\<open>id\<close> of an entry is \<open>entry_id\<close> here, \<open>id\<close> being the
  identity function of HOL.
\<close>

datatype jsvalue = JString string | JNumber number | JBoolean bool | JNull

type_synonym metadata = "string \<rightharpoonup> jsvalue"

record entry =
  entry_id :: string
  vector :: "number list"
  metadata :: metadata

text \<open>
  \<^verbatim>\<open>add(id, text, metadata = {})\<close>: one call to the embedding service, then a push.
  The store is the array \<^verbatim>\<open>this.vectors\<close>; the model returns the array after the call.
  \<^verbatim>\<open>{ ...metadata, text }\<close> copies the caller's keys and then sets the key
  \<^verbatim>\<open>text\<close>. The result \<open>Inl e\<close> is the call throwing \<open>e\<close> with the array as it was:
  the only failure is the embedding request's, and it comes before the push.
\<close>

definition add :: "ollama_client \<Rightarrow> entry list \<Rightarrow> string \<Rightarrow> string \<Rightarrow> metadata \<Rightarrow> error + entry list" where
  "add ollama vectors ident text md =
     (case ollama_embeddings ollama ''nomic-embed-text'' text of
        Inl e \<Rightarrow> Inl e
      | Inr embedding \<Rightarrow>
          Inr (vectors @ [\<lparr>entry_id = ident, vector = embedding,
                              metadata = md(''text'' \<mapsto> JString text)\<rparr>]))"

text \<open>
  A sequence of calls of \<^verbatim>\<open>add\<close>, each given by its three arguments, run on a store one
  after the other; the first failure ends the sequence.
\<close>

fun add_all :: "ollama_client \<Rightarrow> entry list \<Rightarrow> (string \<times> string \<times> metadata) list \<Rightarrow> error + entry list" where
  "add_all ollama vectors [] = Inr vectors"
| "add_all ollama vectors ((ident, text, md) # calls) =
     (case add ollama vectors ident text md of
        Inl e \<Rightarrow> Inl e
      | Inr vectors' \<Rightarrow> add_all ollama vectors' calls)"

text \<open>
  \<^verbatim>\<open>Array.prototype.sort(compare)\<close> is stable and orders by the sign of what
  \<^verbatim>\<open>compare\<close> returns, a NaN counting as \<open>+0\<close>. When \<^verbatim>\<open>compare\<close> is not a
  consistent comparator the standard leaves the order to the implementation; the model
  is an insertion sort, which moves an element behind another only when
  \<^verbatim>\<open>compare\<close> puts it strictly after. Where \<^verbatim>\<open>compare\<close> returns NaN an engine
  may therefore order the array differently from the model.
\<close>

fun insert_by :: "('a \<Rightarrow> 'a \<Rightarrow> number) \<Rightarrow> 'a \<Rightarrow> 'a list \<Rightarrow> 'a list" where
  "insert_by compare x [] = [x]"
| "insert_by compare x (y # ys) =
     (if Fin 0 < compare x y then y # insert_by compare x ys else x # y # ys)"

fun sort_by :: "('a \<Rightarrow> 'a \<Rightarrow> number) \<Rightarrow> 'a list \<Rightarrow> 'a list" where
  "sort_by compare [] = []"
| "sort_by compare (x # xs) = insert_by compare x (sort_by compare xs)"

text \<open>\<^verbatim>\<open>xs.slice(0, k)\<close> for an integer \<open>k\<close>: a negative \<open>k\<close> counts from the end.\<close>

definition slice0 :: "'a list \<Rightarrow> int \<Rightarrow> 'a list" where
  "slice0 xs k = (if k < 0 then take (nat (int (length xs) + k)) xs else take (nat k) xs)"

text \<open>A search result is \<^verbatim>\<open>{ ...item, similarity }\<close>: the entry's fields and one more.\<close>

record scored = entry +
  similarity :: number

definition with_similarity :: "entry \<Rightarrow> number \<Rightarrow> scored" where
  "with_similarity item s =
     \<lparr>entry_id = entry_id item, vector = vector item, metadata = metadata item, similarity = s\<rparr>"

definition search :: "ollama_client \<Rightarrow> entry list \<Rightarrow> string \<Rightarrow> int \<Rightarrow> error + scored list" where
  "search ollama vectors query topK =
     (case ollama_embeddings ollama ''nomic-embed-text'' query of
        Inl e \<Rightarrow> Inl e
      | Inr queryVector \<Rightarrow>
          (let similarities =
                 map (\<lambda>item. with_similarity item (cosineSimilarity queryVector (vector item))) vectors
           in Inr (slice0 (sort_by (\<lambda>a b. similarity b - similarity a) similarities) topK)))"

section \<open>Clustering\<close>

text \<open>
  \<^verbatim>\<open>cluster(numClusters = 3)\<close> draws from the ambient \<^verbatim>\<open>Math.random()\<close>. The draws of
  one call are a parameter of the model: \<open>random i\<close> is what the call's \<open>i\<close>-th use of
  \<^verbatim>\<open>Math.random()\<close> returns (counted from 0), a number in \<open>[0, 1)\<close>.
  \<^verbatim>\<open>this.vectors[randomIndex]\<close> outside the array is \<^verbatim>\<open>undefined\<close>, and reading its
  \<^verbatim>\<open>vector\<close> raises a TypeError.
\<close>

fun initialCentroids :: "(nat \<Rightarrow> real) \<Rightarrow> entry list \<Rightarrow> nat list \<Rightarrow> error + number list list" where
  "initialCentroids random vectors [] = Inr []"
| "initialCentroids random vectors (i # is) =
     (let randomIndex = \<lfloor>random i * real (length vectors)\<rfloor>
      in if 0 \<le> randomIndex \<and> randomIndex < int (length vectors)
         then (case initialCentroids random vectors is of
                 Inl e \<Rightarrow> Inl e
               | Inr centroids \<Rightarrow> Inr (vector (vectors ! nat randomIndex) # centroids))
         else Inl TypeError)"

text \<open>
  The inner loop of the assignment: \<open>i\<close> runs over the centroids, and a centroid takes
  over only when its similarity is strictly greater than the best so far, which starts
  at \<open>-1\<close> with cluster \<open>0\<close>.
\<close>

fun bestCluster_from :: "number list \<Rightarrow> number list list \<Rightarrow> nat \<Rightarrow> nat \<Rightarrow> number \<Rightarrow> nat" where
  "bestCluster_from v [] i bestCluster bestSimilarity = bestCluster"
| "bestCluster_from v (c # cs) i bestCluster bestSimilarity =
     (let similarity = cosineSimilarity v c
      in if similarity > bestSimilarity
         then bestCluster_from v cs (Suc i) i similarity
         else bestCluster_from v cs (Suc i) bestCluster bestSimilarity)"

definition bestCluster :: "number list \<Rightarrow> number list list \<Rightarrow> nat" where
  "bestCluster v centroids = bestCluster_from v centroids 0 0 (Fin (- 1))"

text \<open>
  The outer loop: each entry is pushed onto \<^verbatim>\<open>clusters[bestCluster]\<close>. With no
  centroid at all \<^verbatim>\<open>clusters[0]\<close> is \<^verbatim>\<open>undefined\<close> and the push raises a TypeError.
\<close>

fun assign :: "number list list \<Rightarrow> entry list \<Rightarrow> entry list list \<Rightarrow> error + entry list list" where
  "assign centroids [] clusters = Inr clusters"
| "assign centroids (v # vs) clusters =
     (let best = bestCluster (vector v) centroids
      in if best < length clusters
         then assign centroids vs (clusters[best := clusters ! best @ [v]])
         else Inl TypeError)"

text \<open>
  \<^verbatim>\<open>newCentroid[j] += vector.vector[j]\<close> for every \<open>j\<close> below the length of the entry's
  vector: past the end of \<^verbatim>\<open>newCentroid\<close> the old value is \<^verbatim>\<open>undefined\<close>, the sum is
  NaN, and the assignment extends the array.
\<close>

fun add_into :: "number list \<Rightarrow> number list \<Rightarrow> number list" where
  "add_into newCentroid [] = newCentroid"
| "add_into [] (x # xs) = NaN # add_into [] xs"
| "add_into (c # newCentroid) (x # xs) = (c + x) # add_into newCentroid xs"

definition newCentroid :: "number list \<Rightarrow> entry list \<Rightarrow> number list" where
  "newCentroid centroid members =
     map (\<lambda>c. c / Fin (real (length members)))
       (foldl add_into (replicate (length centroid) (Fin 0)) (map vector members))"

text \<open>
  The update loop, over the centroids and their clusters in step. It returns the new
  centroids and the flag \<^verbatim>\<open>changed\<close>. A centroid without a cluster would make
  \<^verbatim>\<open>clusters[i].length\<close> raise a TypeError.
\<close>

fun updateCentroids :: "number list list \<Rightarrow> entry list list \<Rightarrow> error + number list list \<times> bool" where
  "updateCentroids [] clusters = Inr ([], False)"
| "updateCentroids (c # centroids) [] = Inl TypeError"
| "updateCentroids (c # centroids) (members # clusters) =
     (if length members = 0
      then (case updateCentroids centroids clusters of
              Inl e \<Rightarrow> Inl e
            | Inr (centroids', changed) \<Rightarrow> Inr (c # centroids', changed))
      else (let new = newCentroid c members;
                change = cosineSimilarity c new
            in case updateCentroids centroids clusters of
                 Inl e \<Rightarrow> Inl e
               | Inr (centroids', changed) \<Rightarrow> Inr (new # centroids', change < Fin (99 / 100) \<or> changed)))"

text \<open>One pass through the body of the \<^verbatim>\<open>while\<close> loop, up to the test of \<^verbatim>\<open>changed\<close>.\<close>

definition refinement_round :: "entry list \<Rightarrow> nat \<Rightarrow> number list list \<Rightarrow> error + entry list list \<times> number list list \<times> bool" where
  "refinement_round vectors numClusters centroids =
     (case assign centroids vectors (replicate numClusters []) of
        Inl e \<Rightarrow> Inl e
      | Inr clusters \<Rightarrow>
          (case updateCentroids centroids clusters of
             Inl e \<Rightarrow> Inl e
           | Inr (centroids', changed) \<Rightarrow> Inr (clusters, centroids', changed)))"

definition maxIterations :: nat where
  "maxIterations = 100"

function refine :: "entry list \<Rightarrow> nat \<Rightarrow> number list list \<Rightarrow> entry list list \<Rightarrow> nat \<Rightarrow> error + entry list list" where
  "refine vectors numClusters centroids clusters iterations =
     (if iterations < maxIterations
      then (case refinement_round vectors numClusters centroids of
              Inl e \<Rightarrow> Inl e
            | Inr (clusters', centroids', changed) \<Rightarrow>
                if \<not> changed then Inr clusters'
                else refine vectors numClusters centroids' clusters' (iterations + 1))
      else Inr clusters)"
  by pat_completeness auto
termination
  by (relation "measure (\<lambda>(vectors, numClusters, centroids, clusters, iterations). maxIterations - iterations)") auto

declare refine.simps [simp del]

text \<open>
  \<^verbatim>\<open>Array(numClusters)\<close>, the first statement of the loop body, raises a RangeError for
  a negative length. \<^verbatim>\<open>numClusters\<close> is an integer.
\<close>

definition cluster :: "(nat \<Rightarrow> real) \<Rightarrow> entry list \<Rightarrow> int \<Rightarrow> error + entry list list" where
  "cluster random vectors numClusters =
     (if int (length vectors) < numClusters then Inr [vectors]
      else (case initialCentroids random vectors [0..<nat numClusters] of
              Inl e \<Rightarrow> Inl e
            | Inr centroids \<Rightarrow>
                if numClusters < 0 then Inl RangeError
                else (case refine vectors (nat numClusters) centroids [] 0 of
                        Inl e \<Rightarrow> Inl e
                      | Inr clusters \<Rightarrow> Inr (filter (\<lambda>cluster. length cluster > 0) clusters))))"

section \<open>SimpleRAG\<close>

text \<open>
  The functions of \<^verbatim>\<open>SimpleRAG\<close> also return the requests they sent to the client, in
  order, so that the number of calls can be stated.
\<close>

datatype request = EmbeddingsRequest string string | ChatRequest string string

fun is_chat :: "request \<Rightarrow> bool" where
  "is_chat (ChatRequest model content) = True"
| "is_chat (EmbeddingsRequest model prompt) = False"

record document =
  doc_id :: string
  content :: string
  doc_metadata :: "metadata option"

record rag =
  documents :: "document list"
  embeddings :: "number list list"

text \<open>\<^verbatim>\<open>OllamaEmbeddingFunction.generate(texts)\<close>: one request per text, in order.\<close>

fun generate :: "ollama_client \<Rightarrow> string list \<Rightarrow> request list \<times> (error + number list list)" where
  "generate ollama [] = ([], Inr [])"
| "generate ollama (text # texts) =
     (case ollama_embeddings ollama ''nomic-embed-text'' text of
        Inl e \<Rightarrow> ([EmbeddingsRequest ''nomic-embed-text'' text], Inl e)
      | Inr embedding \<Rightarrow>
          (case generate ollama texts of
             (sent, Inl e) \<Rightarrow> (EmbeddingsRequest ''nomic-embed-text'' text # sent, Inl e)
           | (sent, Inr rest) \<Rightarrow> (EmbeddingsRequest ''nomic-embed-text'' text # sent, Inr (embedding # rest))))"

text \<open>
  \<^verbatim>\<open>addDocument\<close> pushes the document before it awaits the embedding: when the service
  fails the document stays and no embedding is pushed. The model returns the state after
  the call together with the outcome. \<^verbatim>\<open>generate\<close> answers a one-element array with a
  one-element array, so the destructuring \<^verbatim>\<open>const [embedding] = ...\<close> always finds its
  element; the case of an empty answer cannot arise and is marked with a TypeError.
\<close>

definition addDocument :: "ollama_client \<Rightarrow> rag \<Rightarrow> string \<Rightarrow> string \<Rightarrow> metadata option \<Rightarrow> rag \<times> request list \<times> (error + unit)" where
  "addDocument ollama r ident text md =
     (let r' = r\<lparr>documents := documents r @ [\<lparr>doc_id = ident, content = text, doc_metadata = md\<rparr>]\<rparr>
      in case generate ollama [text] of
           (sent, Inl e) \<Rightarrow> (r', sent, Inl e)
         | (sent, Inr []) \<Rightarrow> (r', sent, Inl TypeError)
         | (sent, Inr (embedding # rest)) \<Rightarrow> (r'\<lparr>embeddings := embeddings r' @ [embedding]\<rparr>, sent, Inr ()))"

text \<open>
  \<^verbatim>\<open>SimpleRAG.search\<close> is \<open>rag_search\<close> here, the name \<open>search\<close> being the store's. An
  element of its array \<^verbatim>\<open>similarities\<close> is
  \<^verbatim>\<open>{ index, similarity, document: this.documents[index] }\<close>, the document being
  \<^verbatim>\<open>undefined\<close> when the index is past the end of \<^verbatim>\<open>this.documents\<close>.
\<close>

record ranked =
  index :: nat
  ranked_similarity :: number
  ranked_document :: "document option"

definition rag_search :: "ollama_client \<Rightarrow> rag \<Rightarrow> string \<Rightarrow> int \<Rightarrow> request list \<times> (error + ranked list)" where
  "rag_search ollama r query topK =
     (case generate ollama [query] of
        (sent, Inl e) \<Rightarrow> (sent, Inl e)
      | (sent, Inr []) \<Rightarrow> (sent, if embeddings r = [] then Inr [] else Inl TypeError)
      | (sent, Inr (queryEmbedding # rest)) \<Rightarrow>
          (let similarities =
                 map (\<lambda>(embedding, i).
                        \<lparr>index = i,
                         ranked_similarity = cosineSimilarity queryEmbedding embedding,
                         ranked_document = (if i < length (documents r) then Some (documents r ! i) else None)\<rparr>)
                   (zip (embeddings r) [0..<length (embeddings r)])
           in (sent, Inr (slice0 (sort_by (\<lambda>a b. ranked_similarity b - ranked_similarity a) similarities) topK))))"

text \<open>\<^verbatim>\<open>xs.join(sep)\<close> on an array of strings.\<close>

fun join :: "string \<Rightarrow> string list \<Rightarrow> string" where
  "join sep [] = []"
| "join sep [x] = x"
| "join sep (x # y # ys) = x @ sep @ join sep (y # ys)"

definition newline :: string where
  "newline = [CHR 0x0A]"

text \<open>The template literal of \<^verbatim>\<open>query\<close>.\<close>

definition prompt_of :: "string \<Rightarrow> string \<Rightarrow> string" where
  "prompt_of context question =
     ''Answer the following question based on the provided context. If the answer is not in the context, say so.''
     @ newline @ newline @ ''Context:'' @ newline @ context
     @ newline @ newline @ ''Question: '' @ question
     @ newline @ newline @ ''Answer:''"

record source =
  source_id :: string
  source_similarity :: number

record rag_answer =
  answer :: string
  sources :: "source list"

text \<open>
  \<^verbatim>\<open>query(question, topK = 3)\<close>. \<^verbatim>\<open>doc.document.content\<close> raises a TypeError when the
  document is \<^verbatim>\<open>undefined\<close>.
\<close>

definition query :: "ollama_client \<Rightarrow> rag \<Rightarrow> string \<Rightarrow> int \<Rightarrow> request list \<times> (error + rag_answer)" where
  "query ollama r question topK =
     (case rag_search ollama r question topK of
        (sent, Inl e) \<Rightarrow> (sent, Inl e)
      | (sent, Inr relevantDocs) \<Rightarrow>
          (case those (map ranked_document relevantDocs) of
             None \<Rightarrow> (sent, Inl TypeError)
           | Some docs \<Rightarrow>
               (let context = join (newline @ newline) (map content docs);
                    prompt = prompt_of context question;
                    sent' = sent @ [ChatRequest ''llama3.2'' prompt]
                in case ollama_chat ollama ''llama3.2'' prompt of
                     Inl e \<Rightarrow> (sent', Inl e)
                   | Inr text \<Rightarrow>
                       (sent', Inr \<lparr>answer = text,
                                   sources = map2 (\<lambda>d doc. \<lparr>source_id = doc_id d,
                                                              source_similarity = ranked_similarity doc\<rparr>)
                                               docs relevantDocs\<rparr>))))"

section \<open>Notions used in the statements\<close>

text \<open>A list of numbers in non-increasing order, each comparison being JavaScript's \<^verbatim>\<open>>=\<close>.\<close>

definition non_increasing :: "number list \<Rightarrow> bool" where
  "non_increasing xs = sorted_wrt (\<lambda>a b. b \<le> a) xs"

text \<open>What \<^verbatim>\<open>search\<close> maps over the store once the query vector is known.\<close>

definition score :: "number list \<Rightarrow> entry \<Rightarrow> scored" where
  "score queryVector item = with_similarity item (cosineSimilarity queryVector (vector item))"

text \<open>What \<^verbatim>\<open>SimpleRAG.search\<close> sorts once the query embedding is known.\<close>

definition ranked_all :: "rag \<Rightarrow> number list \<Rightarrow> ranked list" where
  "ranked_all r qv =
     map (\<lambda>(embedding, i).
            \<lparr>index = i, ranked_similarity = cosineSimilarity qv embedding,
             ranked_document = (if i < length (documents r) then Some (documents r ! i) else None)\<rparr>)
       (zip (embeddings r) [0..<length (embeddings r)])"

text \<open>
  The context block and the sources that the claim about \<^verbatim>\<open>query\<close> speaks of, from the
  ranked results of \<^verbatim>\<open>SimpleRAG.search\<close>.
\<close>

definition context_of :: "rag \<Rightarrow> ranked list \<Rightarrow> string" where
  "context_of r relevantDocs =
     join (newline @ newline) (map (\<lambda>d. content (documents r ! index d)) relevantDocs)"

definition sources_of :: "rag \<Rightarrow> ranked list \<Rightarrow> source list" where
  "sources_of r relevantDocs =
     map (\<lambda>d. \<lparr>source_id = doc_id (documents r ! index d),
                source_similarity = ranked_similarity d\<rparr>) relevantDocs"

text \<open>
  The centroids after \<open>n\<close> rounds of the loop that each ended with \<^verbatim>\<open>changed\<close> set,
  if the first \<open>n\<close> rounds did.
\<close>

fun centroids_after :: "entry list \<Rightarrow> nat \<Rightarrow> number list list \<Rightarrow> nat \<Rightarrow> number list list option" where
  "centroids_after vectors k centroids 0 = Some centroids"
| "centroids_after vectors k centroids (Suc n) =
     (case refinement_round vectors k centroids of
        Inl e \<Rightarrow> None
      | Inr (clusters, centroids', changed) \<Rightarrow>
          if changed then centroids_after vectors k centroids' n else None)"

text \<open>
  Every centroid that the round recomputes (its cluster is not empty) has a similarity
  of at least \<open>0.99\<close> to its previous value.
\<close>

definition converged :: "number list list \<Rightarrow> entry list list \<Rightarrow> bool" where
  "converged centroids clusters =
     list_all (\<lambda>(c, members). members = [] \<or> Fin (99 / 100) \<le> cosineSimilarity c (newCentroid c members))
       (zip centroids clusters)"

text \<open>The centroids a round leaves: recomputed where the cluster has members, kept otherwise.\<close>

definition recomputed :: "number list list \<Rightarrow> entry list list \<Rightarrow> number list list" where
  "recomputed centroids clusters =
     map (\<lambda>(c, members). if members = [] then c else newCentroid c members) (zip centroids clusters)"

text \<open>
  What holds of the clusters that a round produced: they have the entries of the store,
  each as often as the store, and an entry's cluster is the one the assignment picks for
  its vector.
\<close>

definition partitions :: "entry list \<Rightarrow> entry list list \<Rightarrow> bool" where
  "partitions vectors clusters =
     (mset (concat clusters) = mset vectors
      \<and> (\<exists>centroids. \<forall>i<length clusters. \<forall>e\<in>set (clusters ! i).
             bestCluster (vector e) centroids = i))"

text \<open>A number that is zero or NaN: what a sum of products with zeros can be.\<close>

definition zero_or_NaN :: "number \<Rightarrow> bool" where
  "zero_or_NaN x = (x = Fin 0 \<or> x = NaN)"

section \<open>Example data\<close>

text \<open>
  A client whose embedding of every text is \<open>(1, 0)\<close> and whose every completion is
  \<^verbatim>\<open>ok\<close>, and stores of entries without metadata.
\<close>

definition east_client :: ollama_client where
  "east_client = \<lparr>ollama_embeddings = (\<lambda>model prompt. Inr [Fin 1, Fin 0]),
                   ollama_chat = (\<lambda>model content. Inr ''ok'')\<rparr>"

definition plain_entry :: "string \<Rightarrow> number list \<Rightarrow> entry" where
  "plain_entry ident v = \<lparr>entry_id = ident, vector = v, metadata = Map.empty\<rparr>"

definition store_with_zero :: "entry list" where
  "store_with_zero =
     [plain_entry ''north'' [Fin 0, Fin 1], plain_entry ''zero'' [Fin 0, Fin 0],
      plain_entry ''east'' [Fin 1, Fin 0]]"

definition store_with_tie :: "entry list" where
  "store_with_tie =
     [plain_entry ''north'' [Fin 0, Fin 1], plain_entry ''east'' [Fin 1, Fin 0],
      plain_entry ''east2'' [Fin 2, Fin 0]]"

definition store_zero_only :: "entry list" where
  "store_zero_only = [plain_entry ''zero'' [Fin 0, Fin 0]]"

definition store_dim1 :: "entry list" where
  "store_dim1 = [plain_entry ''one'' [Fin 1]]"

text \<open>
  For the clustering: two opposite vectors of dimension one, and three sequences of
  values of \<^verbatim>\<open>Math.random()\<close>. On a store of two entries the first gives the indices
  \<open>0, 0\<close>, the other two the indices \<open>0, 1\<close>.
\<close>

definition store_pm :: "entry list" where
  "store_pm = [plain_entry ''plus'' [Fin 1], plain_entry ''minus'' [Fin (- 1)]]"

definition draws_same :: "nat \<Rightarrow> real" where
  "draws_same i = 0"

definition draws_apart :: "nat \<Rightarrow> real" where
  "draws_apart i = (if i = 0 then 0 else 1 / 2)"

definition draws_apart_too :: "nat \<Rightarrow> real" where
  "draws_apart_too i = (if i = 0 then 1 / 4 else 3 / 4)"

text \<open>For the pipeline: two documents, and three documents of which one has a zero embedding.\<close>

definition rag_two :: rag where
  "rag_two =
     \<lparr>documents = [\<lparr>doc_id = ''py'', content = ''Python'', doc_metadata = None\<rparr>,
                   \<lparr>doc_id = ''js'', content = ''JavaScript'', doc_metadata = None\<rparr>],
      embeddings = [[Fin 0, Fin 1], [Fin 1, Fin 0]]\<rparr>"

definition rag_zero :: rag where
  "rag_zero =
     \<lparr>documents = [\<lparr>doc_id = ''north'', content = ''N'', doc_metadata = None\<rparr>,
                   \<lparr>doc_id = ''zero'', content = ''Z'', doc_metadata = None\<rparr>,
                   \<lparr>doc_id = ''east'', content = ''E'', doc_metadata = None\<rparr>],
      embeddings = [[Fin 0, Fin 1], [Fin 0, Fin 0], [Fin 1, Fin 0]]\<rparr>"

section \<open>Symmetry of the similarity\<close>

lemma number_times_commute: "(x::number) * y = y * x"
  by (cases x; cases y) (auto simp: mult.commute)

lemma dot_from_zip:
  "length a = length b \<Longrightarrow> i = length pre \<Longrightarrow>
   reduce_from i (\<lambda>sum ai j. sum + ai * elem_at (pre @ b) j) acc a
     = foldl (\<lambda>sum (x, y). sum + x * y) acc (zip a b)"
proof (induction a b arbitrary: pre acc i rule: list_induct2)
  case Nil
  then show ?case by simp
next
  case (Cons x xs y ys)
  have "reduce_from (Suc i) (\<lambda>sum ai j. sum + ai * elem_at ((pre @ [y]) @ ys) j) (acc + x * y) xs
        = foldl (\<lambda>sum (x, y). sum + x * y) (acc + x * y) (zip xs ys)"
    by (rule Cons.IH) (simp add: Cons.prems)
  then show ?case using Cons.prems by (simp add: elem_at_def nth_append)
qed

lemma dot_zip:
  "length a = length b \<Longrightarrow>
   reduce (\<lambda>sum ai j. sum + ai * elem_at b j) acc a = foldl (\<lambda>sum (x, y). sum + x * y) acc (zip a b)"
  using dot_from_zip [of a b 0 "[]" acc] by (simp add: reduce_def)

lemma dot_zip_commute:
  "length (a :: number list) = length (b :: number list) \<Longrightarrow>
   foldl (\<lambda>sum (x, y). sum + x * y) acc (zip a b) = foldl (\<lambda>sum (x, y). sum + x * y) acc (zip b a)"
proof (induction a b arbitrary: acc rule: list_induct2)
  case Nil
  then show ?case by simp
next
  case (Cons x xs y ys)
  have "x * y = y * x" by (rule number_times_commute)
  then show ?case using Cons.IH by simp
qed

lemma cosineSimilarity_commute:
  "length a = length b \<Longrightarrow> cosineSimilarity a b = cosineSimilarity b a"
proof -
  assume len: "length a = length b"
  have dot: "reduce (\<lambda>sum ai j. sum + ai * elem_at b j) (Fin 0) a
             = reduce (\<lambda>sum bi j. sum + bi * elem_at a j) (Fin 0) b"
    using len by (simp add: dot_zip dot_zip_commute [of a b])
  have mag: "magnitude a * magnitude b = magnitude b * magnitude a"
    by (rule number_times_commute)
  show ?thesis
    using dot mag by (simp add: cosineSimilarity_def magnitude_def)
qed


text \<open>
  Claim C8, as amended. For vectors \<open>a\<close> and \<open>b\<close> of the same length,
  \<^verbatim>\<open>cosineSimilarity(a, b)\<close> and \<^verbatim>\<open>cosineSimilarity(b, a)\<close> compute the same value, and
  the two calls are equal under \<^verbatim>\<open>===\<close> exactly when that value is not NaN. Of the
  arithmetic the proof uses only that multiplication commutes, which holds of doubles
  with their rounding as well.
\<close>

theorem cosineSimilarity_symmetric:
  "length a = length b \<Longrightarrow>
   cosineSimilarity a b = cosineSimilarity b a
   \<and> (strict_eq (cosineSimilarity a b) (cosineSimilarity b a) \<longleftrightarrow> cosineSimilarity a b \<noteq> NaN)"
  using cosineSimilarity_commute [of a b] by (simp add: strict_eq_def)

theorem cosineSimilarity_symmetric_witness:
  "cosineSimilarity [Fin 2, Fin 0] [Fin 1, Fin 0] = cosineSimilarity [Fin 1, Fin 0] [Fin 2, Fin 0]
   \<and> strict_eq (cosineSimilarity [Fin 2, Fin 0] [Fin 1, Fin 0])
                (cosineSimilarity [Fin 1, Fin 0] [Fin 2, Fin 0])"
proof -
  have len: "length [Fin 2, Fin 0] = length [Fin 1, Fin 0]"
    by simp
  have number: "cosineSimilarity [Fin 2, Fin 0] [Fin 1, Fin 0] \<noteq> NaN"
    by (simp add: cosineSimilarity_def reduce_def elem_at_def)
  with cosineSimilarity_symmetric [OF len] show ?thesis
    by blast
qed

text \<open>
  Claim C8 as stated fails: a nonzero norm does not keep the similarity from being NaN,
  and NaN is not equal to itself. The vectors \<open>(\<infinity>)\<close> and \<open>(1)\<close> have the norms \<open>\<infinity>\<close> and
  \<open>1\<close>, the similarity is \<open>\<infinity>/(\<infinity> * 1)\<close>, NaN, in both orders, and the comparison of the
  two calls is false. (In the code a finite coordinate whose square overflows, such as
  \<open>1e200\<close>, does the same; the exact arithmetic of the model does not show that.)
\<close>

theorem cosineSimilarity_symmetric_counterexample:
  "length [PosInf] = length [Fin 1]
   \<and> magnitude [PosInf] = PosInf \<and> magnitude [Fin 1] = Fin 1
   \<and> cosineSimilarity [PosInf] [Fin 1] = NaN \<and> cosineSimilarity [Fin 1] [PosInf] = NaN
   \<and> \<not> strict_eq (cosineSimilarity [PosInf] [Fin 1]) (cosineSimilarity [Fin 1] [PosInf])"
  by (simp add: cosineSimilarity_def magnitude_def reduce_def elem_at_def strict_eq_def)

section \<open>A vector of norm zero\<close>

lemma plus_eq_Fin: "(x::number) + y = Fin r \<Longrightarrow> \<exists>s t. x = Fin s \<and> y = Fin t \<and> r = s + t"
  by (cases x; cases y) auto

lemma square_eq_Fin: "(x::number) * x = Fin q \<Longrightarrow> \<exists>t. x = Fin t \<and> q = t * t"
  by (cases x) auto

lemma sumsq_from_Fin:
  "reduce_from i (\<lambda>sum x j. sum + x * x) acc b = Fin r \<Longrightarrow>
   \<exists>s. acc = Fin s \<and> s \<le> r \<and> (\<forall>x\<in>set b. \<exists>t. x = Fin t \<and> t * t \<le> r - s)"
proof (induction b arbitrary: acc i)
  case Nil
  then show ?case by simp
next
  case (Cons x xs)
  from Cons.prems have "reduce_from (Suc i) (\<lambda>sum x j. sum + x * x) (acc + x * x) xs = Fin r"
    by simp
  from Cons.IH [OF this] obtain s' where
    s': "acc + x * x = Fin s'" "s' \<le> r" and rest: "\<forall>y\<in>set xs. \<exists>t. y = Fin t \<and> t * t \<le> r - s'"
    by blast
  from plus_eq_Fin [OF s'(1)] obtain s q where sq: "acc = Fin s" "x * x = Fin q" "s' = s + q"
    by blast
  from square_eq_Fin [OF sq(2)] obtain t where t: "x = Fin t" "q = t * t"
    by blast
  have q0: "0 \<le> q" using t by simp
  have "s \<le> r" using s'(2) sq(3) q0 by linarith
  moreover have "t * t \<le> r - s" using s'(2) sq(3) t by linarith
  moreover have "\<forall>y\<in>set xs. \<exists>u. y = Fin u \<and> u * u \<le> r - s"
  proof
    fix y assume "y \<in> set xs"
    with rest obtain u where "y = Fin u" "u * u \<le> r - s'" by blast
    then show "\<exists>u. y = Fin u \<and> u * u \<le> r - s" using sq(3) q0 by (intro exI [of _ u]) simp
  qed
  ultimately show ?case using sq(1) t(1) by auto
qed

lemma Math_sqrt_eq_zero: "Math_sqrt x = Fin 0 \<Longrightarrow> x = Fin 0"
  by (cases x) (auto split: if_splits)

lemma zero_magnitude_all_zero:
  assumes "magnitude b = Fin 0"
  shows "\<forall>x\<in>set b. x = Fin 0"
proof
  fix x assume x: "x \<in> set b"
  from assms have "reduce_from 0 (\<lambda>sum x j. sum + x * x) (Fin 0) b = Fin 0"
    by (simp add: magnitude_def reduce_def Math_sqrt_eq_zero)
  from sumsq_from_Fin [OF this] x obtain t where "x = Fin t" "t * t \<le> 0"
    by auto
  moreover from this have "t = 0"
    by (metis mult_eq_0_iff order_antisym zero_le_square)
  ultimately show "x = Fin 0" by simp
qed

lemma times_zero_or_NaN: "zero_or_NaN y \<Longrightarrow> zero_or_NaN (x * y)"
  by (cases x; cases y) (auto simp: zero_or_NaN_def)

lemma plus_zero_or_NaN: "zero_or_NaN x \<Longrightarrow> zero_or_NaN y \<Longrightarrow> zero_or_NaN (x + y)"
  by (cases x; cases y) (auto simp: zero_or_NaN_def)

lemma divide_zero_or_NaN: "zero_or_NaN x \<Longrightarrow> zero_or_NaN y \<Longrightarrow> x / y = NaN"
  by (cases x; cases y) (auto simp: zero_or_NaN_def)

lemma elem_at_zero_or_NaN: "\<forall>x\<in>set b. x = Fin 0 \<Longrightarrow> zero_or_NaN (elem_at b j)"
  by (simp add: elem_at_def zero_or_NaN_def)

lemma dot_zero_or_NaN:
  "\<forall>x\<in>set b. x = Fin 0 \<Longrightarrow> zero_or_NaN acc \<Longrightarrow>
   zero_or_NaN (reduce_from i (\<lambda>sum ai j. sum + ai * elem_at b j) acc a)"
proof (induction a arbitrary: acc i)
  case Nil
  then show ?case by simp
next
  case (Cons x xs)
  have "zero_or_NaN (acc + x * elem_at b i)"
    using Cons.prems by (intro plus_zero_or_NaN times_zero_or_NaN elem_at_zero_or_NaN)
  from Cons.IH [OF Cons.prems(1) this] show ?case by simp
qed

lemma cosineSimilarity_zero_magnitude:
  assumes "magnitude b = Fin 0"
  shows "cosineSimilarity a b = NaN"
proof -
  have zeros: "\<forall>x\<in>set b. x = Fin 0"
    using assms by (rule zero_magnitude_all_zero)
  have "zero_or_NaN (reduce (\<lambda>sum ai j. sum + ai * elem_at b j) (Fin 0) a)"
    unfolding reduce_def by (rule dot_zero_or_NaN [OF zeros]) (simp add: zero_or_NaN_def)
  moreover have "zero_or_NaN (magnitude a * magnitude b)"
    using assms by (intro times_zero_or_NaN) (simp add: zero_or_NaN_def)
  ultimately show ?thesis
    by (simp add: cosineSimilarity_def magnitude_def divide_zero_or_NaN)
qed

section \<open>The comparator and the sort\<close>

lemma compare_positive: "Fin 0 < (y::number) - x \<longleftrightarrow> x < y"
  by (cases x; cases y) auto

lemma number_le_total: "x \<noteq> NaN \<Longrightarrow> y \<noteq> NaN \<Longrightarrow> \<not> x < y \<Longrightarrow> (y::number) \<le> x"
  by (cases x; cases y) (auto simp: less_eq_number_def)

lemma number_less_le: "(x::number) < y \<Longrightarrow> x \<le> y"
  by (cases x; cases y) (auto simp: less_eq_number_def)

lemma number_le_trans: "(x::number) \<le> y \<Longrightarrow> y \<le> z \<Longrightarrow> x \<le> z"
  by (cases x; cases y; cases z) (auto simp: less_eq_number_def)

lemma number_less_neq: "(x::number) < y \<Longrightarrow> x \<noteq> y"
  by (cases x; cases y) auto

lemma insert_by_key:
  "insert_by (\<lambda>a b. key b - key a) x (y # ys) =
     (if key x < key y then y # insert_by (\<lambda>a b. key b - key a) x ys else x # y # ys)"
  by (simp add: compare_positive)

lemma set_insert_by: "set (insert_by compare x ys) = insert x (set ys)"
  by (induction ys) auto

lemma mset_insert_by: "mset (insert_by compare x ys) = add_mset x (mset ys)"
  by (induction ys) auto

lemma mset_sort_by: "mset (sort_by compare xs) = mset xs"
  by (induction xs) (simp_all add: mset_insert_by)

lemma length_sort_by: "length (sort_by compare xs) = length xs"
  using mset_sort_by [of compare xs] by (metis size_mset)

lemma set_sort_by: "set (sort_by compare xs) = set xs"
  using mset_sort_by [of compare xs] by (metis set_mset_mset)

lemma sorted_insert_by:
  assumes "key x \<noteq> NaN" "\<forall>y\<in>set ys. key y \<noteq> NaN"
    and "sorted_wrt (\<lambda>a b. key b \<le> key a) ys"
  shows "sorted_wrt (\<lambda>a b. key b \<le> key a) (insert_by (\<lambda>a b. key b - key a) x ys)"
  using assms(2,3)
proof (induction ys)
  case Nil
  then show ?case by simp
next
  case (Cons y ys)
  show ?case
  proof (cases "key x < key y")
    case True
    have "sorted_wrt (\<lambda>a b. key b \<le> key a) (insert_by (\<lambda>a b. key b - key a) x ys)"
      using Cons by simp
    moreover have "\<forall>z\<in>set (insert_by (\<lambda>a b. key b - key a) x ys). key z \<le> key y"
      using Cons.prems True by (auto simp: set_insert_by number_less_le)
    ultimately show ?thesis using True by (simp add: compare_positive)
  next
    case False
    have xy: "key y \<le> key x"
      using False assms(1) Cons.prems(1) by (simp add: number_le_total)
    have "\<forall>z\<in>set ys. key z \<le> key x"
      using Cons.prems(2) xy by (auto intro: number_le_trans)
    then show ?thesis using False xy Cons.prems(2) by (simp add: compare_positive)
  qed
qed

lemma sorted_sort_by:
  "\<forall>x\<in>set xs. key x \<noteq> NaN \<Longrightarrow>
   sorted_wrt (\<lambda>a b. key b \<le> key a) (sort_by (\<lambda>a b. key b - key a) xs)"
  by (induction xs) (simp_all add: sorted_insert_by set_sort_by)

lemma filter_insert_by:
  "filter (\<lambda>r. key r = s) (insert_by (\<lambda>a b. key b - key a) x ys)
     = filter (\<lambda>r. key r = s) (x # ys)"
  by (induction ys) (auto simp: compare_positive dest: number_less_neq)

lemma filter_sort_by:
  "filter (\<lambda>r. key r = s) (sort_by (\<lambda>a b. key b - key a) xs) = filter (\<lambda>r. key r = s) xs"
  by (induction xs) (simp_all add: filter_insert_by)

lemma prefix_filter_take: "prefix (filter P (take n xs)) (filter P xs)"
proof -
  have "filter P xs = filter P (take n xs) @ filter P (drop n xs)"
    by (metis append_take_drop_id filter_append)
  then show ?thesis by (simp add: prefix_def)
qed

lemma sorted_wrt_take: "sorted_wrt R xs \<Longrightarrow> sorted_wrt R (take n xs)"
  by (metis append_take_drop_id sorted_wrt_append)

section \<open>Ranking by \<^verbatim>\<open>search\<close>\<close>

lemma search_Inr:
  "ollama_embeddings ollama ''nomic-embed-text'' text = Inr q \<Longrightarrow>
   search ollama vectors text topK
     = Inr (slice0 (sort_by (\<lambda>a b. similarity b - similarity a) (map (score q) vectors)) topK)"
  by (simp add: search_def score_def [abs_def])

lemma similarity_score [simp]: "similarity (score q item) = cosineSimilarity q (vector item)"
  by (simp add: score_def with_similarity_def)

text \<open>
  Claim C1, as amended. When the embedding request succeeds, \<open>topK\<close> is not negative
  and no stored vector has a NaN similarity to the query vector, \<^verbatim>\<open>search\<close> returns
  results in non-increasing order of similarity, exactly \<open>min(topK, store size)\<close> of
  them, and among the results of one similarity the order is the order of insertion:
  they are the first of the store's entries with that similarity. The results are entries
  of the store with their similarities, and no entry left out has a greater similarity
  than one returned. On the empty store the result is empty.
\<close>

theorem search_ranking:
  assumes "0 \<le> topK"
    and "ollama_embeddings ollama ''nomic-embed-text'' text = Inr q"
    and "\<forall>item\<in>set vectors. cosineSimilarity q (vector item) \<noteq> NaN"
  shows "\<exists>results. search ollama vectors text topK = Inr results
           \<and> non_increasing (map similarity results)
           \<and> length results = min (nat topK) (length vectors)
           \<and> (\<forall>s. prefix (filter (\<lambda>r. similarity r = s) results)
                         (filter (\<lambda>r. similarity r = s) (map (score q) vectors)))
           \<and> (\<exists>rest. mset (results @ rest) = mset (map (score q) vectors)
                  \<and> (\<forall>a\<in>set results. \<forall>b\<in>set rest. similarity b \<le> similarity a))
           \<and> (vectors = [] \<longrightarrow> results = [])"
proof -
  let ?sorted = "sort_by (\<lambda>a b. similarity b - similarity a) (map (score q) vectors)"
  let ?results = "take (nat topK) ?sorted"
  have res: "search ollama vectors text topK = Inr ?results"
    using assms(1,2) by (simp add: search_Inr slice0_def)
  have "\<forall>x\<in>set (map (score q) vectors). similarity x \<noteq> NaN"
    using assms(3) by simp
  then have "sorted_wrt (\<lambda>a b. similarity b \<le> similarity a) ?sorted"
    by (rule sorted_sort_by)
  then have whole: "sorted_wrt (\<lambda>a b. similarity b \<le> similarity a) (?results @ drop (nat topK) ?sorted)"
    by simp
  then have sorted: "non_increasing (map similarity ?results)"
    by (simp add: non_increasing_def sorted_wrt_map sorted_wrt_append del: append_take_drop_id)
  have "mset (?results @ drop (nat topK) ?sorted) = mset (map (score q) vectors)"
    by (simp add: mset_sort_by)
  moreover have "\<forall>a\<in>set ?results. \<forall>b\<in>set (drop (nat topK) ?sorted). similarity b \<le> similarity a"
    using whole by (simp add: sorted_wrt_append del: append_take_drop_id)
  ultimately have top: "\<exists>rest. mset (?results @ rest) = mset (map (score q) vectors)
      \<and> (\<forall>a\<in>set ?results. \<forall>b\<in>set rest. similarity b \<le> similarity a)"
    by blast
  have len: "length ?results = min (nat topK) (length vectors)"
    by (simp add: length_sort_by)
  have stable: "\<forall>s. prefix (filter (\<lambda>r. similarity r = s) ?results)
                         (filter (\<lambda>r. similarity r = s) (map (score q) vectors))"
  proof
    fix s
    have "prefix (filter (\<lambda>r. similarity r = s) ?results) (filter (\<lambda>r. similarity r = s) ?sorted)"
      by (rule prefix_filter_take)
    then show "prefix (filter (\<lambda>r. similarity r = s) ?results)
                      (filter (\<lambda>r. similarity r = s) (map (score q) vectors))"
      by (simp only: filter_sort_by)
  qed
  have "vectors = [] \<longrightarrow> ?results = []" by simp
  with res sorted len stable top show ?thesis by blast
qed

theorem search_ranking_witness:
  "\<exists>results. search east_client store_with_tie ''q'' 2 = Inr results
      \<and> non_increasing (map similarity results) \<and> length results = 2
      \<and> prefix (filter (\<lambda>r. similarity r = Fin 1) results)
                 (filter (\<lambda>r. similarity r = Fin 1) (map (score [Fin 1, Fin 0]) store_with_tie))"
proof -
  have h1: "(0::int) \<le> 2"
    by simp
  have h2: "ollama_embeddings east_client ''nomic-embed-text'' ''q'' = Inr [Fin 1, Fin 0]"
    by (simp add: east_client_def)
  have h3: "\<forall>item\<in>set store_with_tie. cosineSimilarity [Fin 1, Fin 0] (vector item) \<noteq> NaN"
    by (simp add: store_with_tie_def plain_entry_def cosineSimilarity_def reduce_def elem_at_def)
  from search_ranking [OF h1 h2 h3] obtain results where
    "search east_client store_with_tie ''q'' 2 = Inr results"
    "non_increasing (map similarity results)"
    "length results = min (nat 2) (length store_with_tie)"
    "\<forall>s. prefix (filter (\<lambda>r. similarity r = s) results)
                 (filter (\<lambda>r. similarity r = s) (map (score [Fin 1, Fin 0]) store_with_tie))"
    by blast
  then show ?thesis
    by (intro exI [of _ results]) (simp add: store_with_tie_def)
qed

text \<open>
  Claim C1 as stated fails on a store that holds an all-zero vector: the similarity of
  that entry is NaN, the comparator returns NaN against it, and the three results come
  back in insertion order, similarity \<open>0\<close> ahead of similarity \<open>1\<close>. Whatever the order, a
  NaN stands next to a number, and no comparison with NaN holds.
\<close>

theorem search_unsorted_counterexample:
  "search east_client store_with_zero ''q'' 3
     = Inr [with_similarity (plain_entry ''north'' [Fin 0, Fin 1]) (Fin 0),
            with_similarity (plain_entry ''zero'' [Fin 0, Fin 0]) NaN,
            with_similarity (plain_entry ''east'' [Fin 1, Fin 0]) (Fin 1)]
   \<and> \<not> non_increasing [Fin 0, NaN, Fin 1]"
  by (simp add: search_def east_client_def store_with_zero_def plain_entry_def slice0_def with_similarity_def
       cosineSimilarity_def reduce_def elem_at_def non_increasing_def less_eq_number_def)

section \<open>Zero-norm entries in \<^verbatim>\<open>search\<close>\<close>

lemma set_slice0: "set (slice0 xs k) \<subseteq> set xs"
  by (auto simp: slice0_def dest: in_set_takeD)

lemma slice0_all: "int (length xs) \<le> k \<Longrightarrow> slice0 xs k = xs"
  by (simp add: slice0_def)

lemma vector_score [simp]: "vector (score q item) = vector item"
  by (simp add: score_def with_similarity_def)

text \<open>
  Claim C3, as amended. \<^verbatim>\<open>search\<close> raises nothing of its own: when the embedding request
  succeeds it returns results, each a stored entry with its similarity, and every
  returned entry whose vector has norm zero carries the similarity NaN (\<open>0/0\<close>), neither
  an error nor \<open>0\<close>. With \<open>topK\<close> at least the size of the store every entry is returned.
\<close>

theorem search_zero_norm:
  assumes "ollama_embeddings ollama ''nomic-embed-text'' text = Inr q"
  shows "\<exists>results. search ollama vectors text topK = Inr results
           \<and> set results \<subseteq> score q ` set vectors
           \<and> (\<forall>r\<in>set results. magnitude (vector r) = Fin 0 \<longrightarrow> similarity r = NaN)
           \<and> (int (length vectors) \<le> topK \<longrightarrow> mset results = mset (map (score q) vectors))"
proof -
  let ?sorted = "sort_by (\<lambda>a b. similarity b - similarity a) (map (score q) vectors)"
  let ?results = "slice0 ?sorted topK"
  have res: "search ollama vectors text topK = Inr ?results"
    using assms by (rule search_Inr)
  have sub: "set ?results \<subseteq> score q ` set vectors"
    using set_slice0 [of ?sorted topK] by (simp add: set_sort_by)
  have nan: "\<forall>r\<in>set ?results. magnitude (vector r) = Fin 0 \<longrightarrow> similarity r = NaN"
  proof (intro ballI impI)
    fix r assume "r \<in> set ?results" and zero: "magnitude (vector r) = Fin 0"
    with sub obtain item where "r = score q item" by blast
    with zero show "similarity r = NaN"
      by (simp add: cosineSimilarity_zero_magnitude)
  qed
  have "int (length vectors) \<le> topK \<longrightarrow> mset ?results = mset (map (score q) vectors)"
    by (simp add: slice0_all length_sort_by mset_sort_by)
  with res sub nan show ?thesis by blast
qed

theorem search_zero_norm_witness:
  "\<exists>results. search east_client store_with_zero ''q'' 3 = Inr results
      \<and> (\<exists>r\<in>set results. magnitude (vector r) = Fin 0 \<and> similarity r = NaN)"
proof -
  have h: "ollama_embeddings east_client ''nomic-embed-text'' ''q'' = Inr [Fin 1, Fin 0]"
    by (simp add: east_client_def)
  from search_zero_norm [OF h, of store_with_zero 3] obtain results where
    res: "search east_client store_with_zero ''q'' 3 = Inr results"
    and nan: "\<forall>r\<in>set results. magnitude (vector r) = Fin 0 \<longrightarrow> similarity r = NaN"
    and all: "int (length store_with_zero) \<le> 3 \<longrightarrow> mset results = mset (map (score [Fin 1, Fin 0]) store_with_zero)"
    by blast
  let ?r = "score [Fin 1, Fin 0] (plain_entry ''zero'' [Fin 0, Fin 0])"
  have "mset results = mset (map (score [Fin 1, Fin 0]) store_with_zero)"
    using all by (simp add: store_with_zero_def)
  then have "set results = set (map (score [Fin 1, Fin 0]) store_with_zero)"
    by (metis set_mset_mset)
  then have mem: "?r \<in> set results"
    by (simp add: store_with_zero_def)
  have zero: "magnitude (vector ?r) = Fin 0"
    by (simp add: plain_entry_def magnitude_def reduce_def)
  with nan mem have "similarity ?r = NaN" by blast
  with res mem zero show ?thesis by blast
qed

text \<open>
  Claim C3 as stated fails: on a store whose only entry is the all-zero vector the call
  returns, and the entry's similarity is NaN.
\<close>

theorem search_zero_norm_counterexample:
  "search east_client store_zero_only ''q'' 5
     = Inr [with_similarity (plain_entry ''zero'' [Fin 0, Fin 0]) NaN]"
  by (simp add: search_def east_client_def store_zero_only_def plain_entry_def slice0_def with_similarity_def
       cosineSimilarity_def reduce_def elem_at_def)

section \<open>Insertion\<close>

text \<open>
  Claim C2, as amended. \<^verbatim>\<open>add\<close> compares no lengths. It fails exactly when the embedding
  request fails, with that failure and before anything is pushed; when the request
  succeeds it appends one entry that carries the embedding, whatever its length and
  whatever the store already holds, and the earlier entries stay as they were.
\<close>

theorem add_any_dimension:
  "(\<forall>e. ollama_embeddings ollama ''nomic-embed-text'' text = Inl e
        \<longrightarrow> add ollama vectors ident text md = Inl e)
   \<and> (\<forall>v. ollama_embeddings ollama ''nomic-embed-text'' text = Inr v
        \<longrightarrow> (\<exists>new. add ollama vectors ident text md = Inr (vectors @ [new])
                   \<and> entry_id new = ident \<and> vector new = v))"
  by (simp add: add_def)

theorem add_any_dimension_witness:
  "\<exists>new. add east_client store_dim1 ''two'' ''t'' Map.empty = Inr (store_dim1 @ [new])
      \<and> entry_id new = ''two'' \<and> vector new = [Fin 1, Fin 0]
      \<and> length (vector new) \<noteq> length (vector (hd store_dim1))"
proof -
  have h: "ollama_embeddings east_client ''nomic-embed-text'' ''t'' = Inr [Fin 1, Fin 0]"
    by (simp add: east_client_def)
  from add_any_dimension [of east_client "''t''" store_dim1 "''two''" Map.empty] h
  obtain new where "add east_client store_dim1 ''two'' ''t'' Map.empty = Inr (store_dim1 @ [new])"
    "entry_id new = ''two''" "vector new = [Fin 1, Fin 0]"
    by blast
  then show ?thesis
    by (intro exI [of _ new]) (simp add: store_dim1_def plain_entry_def)
qed

text \<open>
  Claim C2 as stated fails: a store whose entry has a vector of length 1 accepts an
  embedding of length 2.
\<close>

theorem add_mismatch_counterexample:
  "add east_client store_dim1 ''two'' ''t'' Map.empty
     = Inr [plain_entry ''one'' [Fin 1],
            \<lparr>entry_id = ''two'', vector = [Fin 1, Fin 0], metadata = [''text'' \<mapsto> JString ''t'']\<rparr>]"
  by (simp add: add_def east_client_def store_dim1_def)

lemma add_all_metadata:
  "add_all ollama vectors calls = Inr store \<Longrightarrow>
   map (\<lambda>e. (entry_id e, metadata e)) store
     = map (\<lambda>e. (entry_id e, metadata e)) vectors
       @ map (\<lambda>(ident, text, md). (ident, md(''text'' \<mapsto> JString text))) calls"
proof (induction calls arbitrary: vectors)
  case Nil
  then show ?case by simp
next
  case (Cons call calls)
  obtain ident t md where call: "call = (ident, t, md)"
    by (cases call) auto
  with Cons.prems obtain v where
    rest: "add_all ollama (vectors @ [\<lparr>entry_id = ident, vector = v,
                                       metadata = md(''text'' \<mapsto> JString t)\<rparr>]) calls = Inr store"
    by (auto simp: add_def split: sum.splits)
  from Cons.IH [OF rest] call show ?case
    by (simp add: fun_upd_def)
qed

lemma entry_id_score [simp]: "entry_id (score q item) = entry_id item"
  by (simp add: score_def with_similarity_def)

lemma metadata_score [simp]: "metadata (score q item) = metadata item"
  by (simp add: score_def with_similarity_def)

lemma search_results_scored:
  assumes "search ollama vectors text topK = Inr results"
  shows "\<exists>q. set results \<subseteq> score q ` set vectors"
proof -
  from assms obtain q where q: "ollama_embeddings ollama ''nomic-embed-text'' text = Inr q"
    by (auto simp: search_def split: sum.splits)
  have "set (slice0 (sort_by (\<lambda>a b. similarity b - similarity a) (map (score q) vectors)) topK)
          \<subseteq> score q ` set vectors"
    using set_slice0 [of "sort_by (\<lambda>a b. similarity b - similarity a) (map (score q) vectors)" topK]
    by (simp add: set_sort_by)
  with assms search_Inr [OF q, of vectors topK] show ?thesis by auto
qed


text \<open>
  Claim C10. The entry that \<^verbatim>\<open>add(id, text, metadata)\<close> stores has the caller's metadata
  with the key \<^verbatim>\<open>text\<close> bound to the inserted text: the other keys are the caller's, a
  caller's value under \<^verbatim>\<open>text\<close> is overwritten, and in a store built by calls of
  \<^verbatim>\<open>add\<close> every result of \<^verbatim>\<open>search\<close> carries, under \<^verbatim>\<open>text\<close>, the text of the call
  that inserted it.
\<close>

theorem add_metadata_text:
  "(\<forall>vectors'. add ollama vectors ident text md = Inr vectors' \<longrightarrow>
       metadata (last vectors') = md(''text'' \<mapsto> JString text)
       \<and> metadata (last vectors') ''text'' = Some (JString text)
       \<and> (\<forall>k. k \<noteq> ''text'' \<longrightarrow> metadata (last vectors') k = md k)
       \<and> (md ''text'' \<noteq> Some (JString text) \<longrightarrow> metadata (last vectors') \<noteq> md))
   \<and> (\<forall>calls store client q topK results.
         add_all ollama [] calls = Inr store \<and> search client store q topK = Inr results \<longrightarrow>
         (\<forall>r\<in>set results. \<exists>(i, t, m)\<in>set calls.
              entry_id r = i \<and> metadata r = m(''text'' \<mapsto> JString t)
              \<and> metadata r ''text'' = Some (JString t)))"
proof (intro conjI allI impI)
  fix vectors'
  assume a: "add ollama vectors ident text md = Inr vectors'"
  then show m: "metadata (last vectors') = md(''text'' \<mapsto> JString text)"
    by (auto simp: add_def split: sum.splits)
  then show "metadata (last vectors') ''text'' = Some (JString text)"
    by simp
  { fix k :: string assume "k \<noteq> ''text''"
    with m show "metadata (last vectors') k = md k" by simp }
  { assume "md ''text'' \<noteq> Some (JString text)"
    with m show "metadata (last vectors') \<noteq> md" by (metis fun_upd_same) }
next
  fix calls store client q topK results
  assume b: "add_all ollama [] calls = Inr store \<and> search client store q topK = Inr results"
  show "\<forall>r\<in>set results. \<exists>(i, t, m)\<in>set calls.
           entry_id r = i \<and> metadata r = m(''text'' \<mapsto> JString t)
           \<and> metadata r ''text'' = Some (JString t)"
  proof
    fix r assume r: "r \<in> set results"
    from b search_results_scored obtain qv where "set results \<subseteq> score qv ` set store"
      by blast
    with r obtain item where item: "item \<in> set store" "r = score qv item"
      by blast
    then have "(entry_id item, metadata item) \<in> set (map (\<lambda>e. (entry_id e, metadata e)) store)"
      by force
    moreover from b have "map (\<lambda>e. (entry_id e, metadata e)) store
                            = map (\<lambda>(i, t, m). (i, m(''text'' \<mapsto> JString t))) calls"
      using add_all_metadata [of ollama "[]" calls store] by simp
    ultimately have "(entry_id item, metadata item)
                   \<in> set (map (\<lambda>(i, t, m). (i, m(''text'' \<mapsto> JString t))) calls)"
      by simp
    then obtain i t m where "(i, t, m) \<in> set calls" "entry_id item = i"
      "metadata item = m(''text'' \<mapsto> JString t)"
      by auto
    with item(2) show "\<exists>(i, t, m)\<in>set calls.
           entry_id r = i \<and> metadata r = m(''text'' \<mapsto> JString t)
           \<and> metadata r ''text'' = Some (JString t)"
      by (intro bexI [of _ "(i, t, m)"]) auto
  qed
qed

theorem add_metadata_text_witness:
  "\<exists>store results.
      add east_client [] ''a'' ''hello'' [''text'' \<mapsto> JString ''mine''] = Inr store
      \<and> metadata (last store) ''text'' = Some (JString ''hello'')
      \<and> metadata (last store) \<noteq> [''text'' \<mapsto> JString ''mine'']
      \<and> search east_client store ''q'' 1 = Inr results
      \<and> results \<noteq> []
      \<and> list_all (\<lambda>r. metadata r ''text'' = Some (JString ''hello'')) results"
proof -
  let ?md = "[''text'' \<mapsto> JString ''mine'']"
  let ?store = "[\<lparr>entry_id = ''a'', vector = [Fin 1, Fin 0], metadata = ?md(''text'' \<mapsto> JString ''hello'')\<rparr>]"
  let ?results = "[score [Fin 1, Fin 0] (hd ?store)]"
  have a: "add east_client [] ''a'' ''hello'' ?md = Inr ?store"
    by (simp add: add_def east_client_def)
  have b: "add_all east_client [] [(''a'', ''hello'', ?md)] = Inr ?store"
    using a by simp
  have s: "search east_client ?store ''q'' 1 = Inr ?results"
    by (simp add: search_def east_client_def slice0_def score_def)
  have neq: "?md ''text'' \<noteq> Some (JString ''hello'')"
    by simp
  note inst = add_metadata_text [of east_client "[]" "''a''" "''hello''" ?md]
  note first = inst [THEN conjunct1, rule_format, OF a]
  have 1: "metadata (last ?store) ''text'' = Some (JString ''hello'')"
    using first by (elim conjE)
  have 2: "metadata (last ?store) \<noteq> ?md"
    using first neq by (elim conjE) (erule (1) mp)
  have bs: "add_all east_client [] [(''a'', ''hello'', ?md)] = Inr ?store \<and> search east_client ?store ''q'' 1 = Inr ?results"
    using b s by (rule conjI)
  note second = inst [THEN conjunct2, rule_format, OF bs]
  have "hd ?results \<in> set ?results"
    by simp
  from second [OF this] have 3: "list_all (\<lambda>r. metadata r ''text'' = Some (JString ''hello'')) ?results"
    by simp
  from a 1 2 s 3 show ?thesis
    by (intro exI [of _ ?store] exI [of _ ?results]) simp
qed

section \<open>The rounds of the clustering\<close>

lemma initialCentroids_length:
  "initialCentroids random vectors is = Inr centroids \<Longrightarrow> length centroids = length is"
  by (induction "is" arbitrary: centroids) (auto simp: Let_def split: if_splits sum.splits)

lemma initialCentroids_cong:
  "\<forall>i\<in>set is. \<lfloor>r1 i * real (length vectors)\<rfloor> = \<lfloor>r2 i * real (length vectors)\<rfloor> \<Longrightarrow>
   initialCentroids r1 vectors is = initialCentroids r2 vectors is"
  by (induction "is") (simp_all add: Let_def)

lemma randomIndex_in_range:
  assumes "0 \<le> r" "r < 1" "0 < n"
  shows "0 \<le> \<lfloor>r * real n\<rfloor> \<and> \<lfloor>r * real n\<rfloor> < int n"
proof -
  have "0 \<le> r * real n" using assms by simp
  moreover have "r * real n < real n" using assms by simp
  ultimately show ?thesis by (simp add: floor_less_iff)
qed

lemma initialCentroids_returns:
  "vectors \<noteq> [] \<Longrightarrow> \<forall>i\<in>set is. 0 \<le> random i \<and> random i < 1 \<Longrightarrow>
   \<exists>centroids. initialCentroids random vectors is = Inr centroids"
proof (induction "is")
  case Nil
  then show ?case by simp
next
  case (Cons i "is")
  from Cons.prems have "0 \<le> \<lfloor>random i * real (length vectors)\<rfloor>
      \<and> \<lfloor>random i * real (length vectors)\<rfloor> < int (length vectors)"
    by (intro randomIndex_in_range) simp_all
  moreover from Cons obtain cs where "initialCentroids random vectors is = Inr cs"
    by auto
  ultimately show ?case by (simp add: Let_def)
qed

lemma bestCluster_from_range:
  "bestCluster_from v cs i best s = best \<or>
   (i \<le> bestCluster_from v cs i best s \<and> bestCluster_from v cs i best s < i + length cs)"
proof (induction cs arbitrary: i best s)
  case Nil
  then show ?case by simp
next
  case (Cons c cs)
  show ?case
    using Cons.IH [of "Suc i" i "cosineSimilarity v c"] Cons.IH [of "Suc i" best s]
    by (auto simp: Let_def)
qed

lemma bestCluster_less: "centroids \<noteq> [] \<Longrightarrow> bestCluster v centroids < length centroids"
  using bestCluster_from_range [of v centroids 0 0 "Fin (- 1)"]
  by (auto simp: bestCluster_def)

lemma mset_concat_push:
  "i < length clusters \<Longrightarrow>
   mset (concat (clusters[i := clusters ! i @ [v]])) = add_mset v (mset (concat clusters))"
proof (induction clusters arbitrary: i)
  case Nil
  then show ?case by simp
next
  case (Cons c clusters)
  then show ?case by (cases i) simp_all
qed

lemma assign_partition:
  "assign centroids vs clusters = Inr clusters' \<Longrightarrow>
   length clusters' = length clusters \<and> mset (concat clusters') = mset (concat clusters) + mset vs"
proof (induction vs arbitrary: clusters)
  case Nil
  then show ?case by simp
next
  case (Cons v vs)
  let ?best = "bestCluster (vector v) centroids"
  from Cons.prems have less: "?best < length clusters"
    by (simp add: Let_def split: if_splits)
  with Cons.prems have "assign centroids vs (clusters[?best := clusters ! ?best @ [v]]) = Inr clusters'"
    by (simp add: Let_def)
  from Cons.IH [OF this] show ?case
    using less by (simp add: mset_concat_push)
qed

lemma assign_returns:
  "centroids \<noteq> [] \<Longrightarrow> length clusters = length centroids \<Longrightarrow>
   \<exists>clusters'. assign centroids vs clusters = Inr clusters'"
proof (induction vs arbitrary: clusters)
  case Nil
  then show ?case by simp
next
  case (Cons v vs)
  then show ?case by (simp add: Let_def bestCluster_less)
qed

lemma assign_labels:
  "assign centroids vs clusters = Inr clusters' \<Longrightarrow>
   \<forall>i<length clusters. \<forall>e\<in>set (clusters ! i). bestCluster (vector e) centroids = i \<Longrightarrow>
   \<forall>i<length clusters'. \<forall>e\<in>set (clusters' ! i). bestCluster (vector e) centroids = i"
proof (induction vs arbitrary: clusters)
  case Nil
  then show ?case by simp
next
  case (Cons v vs)
  let ?best = "bestCluster (vector v) centroids"
  let ?pushed = "clusters[?best := clusters ! ?best @ [v]]"
  from Cons.prems(1) have less: "?best < length clusters"
    by (simp add: Let_def split: if_splits)
  with Cons.prems(1) have rest: "assign centroids vs ?pushed = Inr clusters'"
    by (simp add: Let_def)
  have "\<forall>i<length ?pushed. \<forall>e\<in>set (?pushed ! i). bestCluster (vector e) centroids = i"
    using Cons.prems(2) less by (auto simp: nth_list_update)
  from Cons.IH [OF rest this] show ?case .
qed

lemma updateCentroids_returns:
  "length clusters = length centroids \<Longrightarrow>
   \<exists>centroids' changed. updateCentroids centroids clusters = Inr (centroids', changed)
      \<and> length centroids' = length centroids"
proof (induction clusters centroids rule: list_induct2)
  case Nil
  show ?case by auto
next
  case (Cons members clusters c centroids)
  from Cons.IH obtain centroids' changed where
    "updateCentroids centroids clusters = Inr (centroids', changed)"
    "length centroids' = length centroids"
    by blast
  then show ?case by (cases "length members = 0") (simp_all add: Let_def)
qed

lemma updateCentroids_length:
  "updateCentroids centroids clusters = Inr (centroids', changed) \<Longrightarrow>
   length centroids' = length centroids"
  by (induction centroids clusters arbitrary: centroids' changed rule: updateCentroids.induct)
     (auto simp: Let_def split: if_splits sum.splits)


lemma refinement_round_partition:
  assumes "refinement_round vectors k centroids = Inr (clusters, centroids', changed)"
  shows "length clusters = k" and "mset (concat clusters) = mset vectors"
    and "length centroids' = length centroids"
    and "\<forall>i<length clusters. \<forall>e\<in>set (clusters ! i). bestCluster (vector e) centroids = i"
proof -
  from assms have a: "assign centroids vectors (replicate k []) = Inr clusters"
    and u: "updateCentroids centroids clusters = Inr (centroids', changed)"
    by (auto simp: refinement_round_def split: sum.splits)
  from assign_partition [OF a] show "length clusters = k" "mset (concat clusters) = mset vectors"
    by simp_all
  from u show "length centroids' = length centroids"
    by (rule updateCentroids_length)
  show "\<forall>i<length clusters. \<forall>e\<in>set (clusters ! i). bestCluster (vector e) centroids = i"
    by (rule assign_labels [OF a]) simp
qed

lemma refinement_round_returns:
  assumes "centroids \<noteq> []" "length centroids = k"
  shows "\<exists>clusters centroids' changed.
           refinement_round vectors k centroids = Inr (clusters, centroids', changed)"
proof -
  from assign_returns [OF assms(1), of "replicate k []" vectors] assms(2)
  obtain clusters where a: "assign centroids vectors (replicate k []) = Inr clusters"
    by auto
  from assign_partition [OF a] assms(2) have "length clusters = length centroids"
    by simp
  from updateCentroids_returns [OF this] a show ?thesis
    by (auto simp: refinement_round_def)
qed

lemma refine_partition:
  "refine vectors k centroids clusters iterations = Inr result \<Longrightarrow>
   iterations < maxIterations \<or> partitions vectors clusters \<Longrightarrow>
   partitions vectors result"
proof (induction vectors k centroids clusters iterations rule: refine.induct)
  case (1 vectors k centroids clusters iterations)
  show ?case
  proof (cases "iterations < maxIterations")
    case False
    with "1.prems" show ?thesis by (simp add: refine.simps)
  next
    case True
    with "1.prems"(1) obtain clusters' centroids' changed where
      round: "refinement_round vectors k centroids = Inr (clusters', centroids', changed)"
      by (subst (asm) refine.simps) (auto split: sum.splits)
    have part: "partitions vectors clusters'"
      using refinement_round_partition(2,4) [OF round] by (auto simp: partitions_def)
    show ?thesis
    proof (cases changed)
      case False
      with True round "1.prems"(1) have "result = clusters'"
        by (subst (asm) refine.simps) simp
      with part show ?thesis by simp
    next
      case changed: True
      with True round "1.prems"(1)
      have "refine vectors k centroids' clusters' (iterations + 1) = Inr result"
        by (subst (asm) refine.simps) simp
      with "1.IH" [OF True round refl refl _ this] changed part show ?thesis by simp
    qed
  qed
qed

lemma refine_returns:
  "centroids \<noteq> [] \<Longrightarrow> length centroids = k \<Longrightarrow>
   \<exists>result. refine vectors k centroids clusters iterations = Inr result"
proof (induction vectors k centroids clusters iterations rule: refine.induct)
  case (1 vectors k centroids clusters iterations)
  show ?case
  proof (cases "iterations < maxIterations")
    case False
    then show ?thesis by (simp add: refine.simps)
  next
    case True
    from refinement_round_returns [OF "1.prems", of vectors] obtain clusters' centroids' changed where
      round: "refinement_round vectors k centroids = Inr (clusters', centroids', changed)"
      by blast
    show ?thesis
    proof (cases changed)
      case False
      with True round show ?thesis by (subst refine.simps) simp
    next
      case changed: True
      from refinement_round_partition(3) [OF round] "1.prems"
      have "centroids' \<noteq> []" "length centroids' = k" by auto
      from "1.IH" [OF True round refl refl _ this] changed
      obtain result where "refine vectors k centroids' clusters' (iterations + 1) = Inr result"
        by auto
      with True round changed show ?thesis by (subst refine.simps) simp
    qed
  qed
qed

lemma concat_filter_nonempty: "concat (filter (\<lambda>c. length c > 0) clusters) = concat clusters"
  by (induction clusters) auto

lemma labelled_disjoint:
  assumes "\<forall>i<length clusters. \<forall>e\<in>set (clusters ! i). f e = i"
    and "c1 \<in> set clusters" "c2 \<in> set clusters" "c1 \<noteq> c2"
  shows "set c1 \<inter> set c2 = {}"
proof (rule ccontr)
  assume "set c1 \<inter> set c2 \<noteq> {}"
  then obtain e where e: "e \<in> set c1" "e \<in> set c2" by blast
  from assms(2,3) obtain i j where ij: "i < length clusters" "clusters ! i = c1"
    "j < length clusters" "clusters ! j = c2"
    by (auto simp: in_set_conv_nth)
  from assms(1) ij(1,2) e(1) have "f e = i" by blast
  moreover from assms(1) ij(3,4) e(2) have "f e = j" by blast
  ultimately show False using ij assms(4) by simp
qed

lemma cluster_cases:
  "cluster random vectors numClusters = Inr clusters \<Longrightarrow>
   (int (length vectors) < numClusters \<and> clusters = [vectors])
   \<or> (1 \<le> numClusters \<and> numClusters \<le> int (length vectors)
       \<and> (\<exists>centroids result. refine vectors (nat numClusters) centroids [] 0 = Inr result
              \<and> clusters = filter (\<lambda>c. length c > 0) result))
   \<or> (numClusters = 0 \<and> vectors = [] \<and> clusters = [])"
proof -
  assume res: "cluster random vectors numClusters = Inr clusters"
  show ?thesis
  proof (cases "int (length vectors) < numClusters")
    case True
    with res show ?thesis by (simp add: cluster_def)
  next
    case False
    with res obtain centroids result where nonneg: "0 \<le> numClusters"
      and r: "refine vectors (nat numClusters) centroids [] 0 = Inr result"
      and c: "clusters = filter (\<lambda>c. length c > 0) result"
      by (auto simp: cluster_def split: sum.splits if_splits)
    show ?thesis
    proof (cases "numClusters = 0")
      case True
      with r have round: "refinement_round vectors 0 centroids \<noteq> Inl TypeError"
        by (subst (asm) refine.simps) (auto simp: maxIterations_def split: sum.splits)
      have "vectors = []"
      proof (cases vectors)
        case Nil then show ?thesis .
      next
        case (Cons v vs)
        then have "refinement_round vectors 0 centroids = Inl TypeError"
          by (simp add: refinement_round_def Let_def)
        with round show ?thesis by simp
      qed
      moreover from this r True have "result = []"
        by (subst (asm) refine.simps)
           (auto simp: maxIterations_def refinement_round_def split: sum.splits if_splits
                 elim: updateCentroids.elims)
      ultimately show ?thesis using True c by simp
    next
      case nz: False
      with nonneg False r c show ?thesis by auto
    qed
  qed
qed

text \<open>Two runs on the example store, traced round by round.\<close>

lemma cos_pp: "cosineSimilarity [Fin 1] [Fin 1] = Fin 1"
  and cos_pm: "cosineSimilarity [Fin 1] [Fin (- 1)] = Fin (- 1)"
  and cos_mp: "cosineSimilarity [Fin (- 1)] [Fin 1] = Fin (- 1)"
  and cos_mm: "cosineSimilarity [Fin (- 1)] [Fin (- 1)] = Fin 1"
  and cos_p0: "cosineSimilarity [Fin 1] [Fin 0] = NaN"
  by (simp_all add: cosineSimilarity_def reduce_def elem_at_def)

lemma initial_same: "initialCentroids draws_same store_pm [0..<2] = Inr [[Fin 1], [Fin 1]]"
  by (simp add: numeral_2_eq_2 draws_same_def store_pm_def plain_entry_def Let_def)

lemma initial_apart: "initialCentroids draws_apart store_pm [0..<2] = Inr [[Fin 1], [Fin (- 1)]]"
  by (simp add: numeral_2_eq_2 draws_apart_def store_pm_def plain_entry_def Let_def)

lemma round_same:
  "refinement_round store_pm 2 [[Fin 1], [Fin 1]]
     = Inr ([[plain_entry ''plus'' [Fin 1], plain_entry ''minus'' [Fin (- 1)]], []],
            [[Fin 0], [Fin 1]], False)"
  by (simp add: refinement_round_def store_pm_def plain_entry_def bestCluster_def Let_def
        cos_pp cos_mp cos_p0 newCentroid_def numeral_2_eq_2)

lemma round_apart:
  "refinement_round store_pm 2 [[Fin 1], [Fin (- 1)]]
     = Inr ([[plain_entry ''plus'' [Fin 1]], [plain_entry ''minus'' [Fin (- 1)]]],
            [[Fin 1], [Fin (- 1)]], False)"
  by (simp add: refinement_round_def store_pm_def plain_entry_def bestCluster_def Let_def
        cos_pp cos_mp cos_pm cos_mm newCentroid_def numeral_2_eq_2)

lemma cluster_same:
  "cluster draws_same store_pm 2
     = Inr [[plain_entry ''plus'' [Fin 1], plain_entry ''minus'' [Fin (- 1)]]]"
proof -
  have "length store_pm = 2" by (simp add: store_pm_def)
  then show ?thesis
    by (simp add: cluster_def initial_same refine.simps [of _ _ _ _ 0] maxIterations_def round_same)
qed

lemma cluster_apart:
  "cluster draws_apart store_pm 2
     = Inr [[plain_entry ''plus'' [Fin 1]], [plain_entry ''minus'' [Fin (- 1)]]]"
proof -
  have "length store_pm = 2" by (simp add: store_pm_def)
  then show ?thesis
    by (simp add: cluster_def initial_apart refine.simps [of _ _ _ _ 0] maxIterations_def round_apart)
qed

section \<open>The clusters partition the store\<close>

lemma labelled_distinct_nonempty:
  "\<forall>i<length cs. \<forall>e\<in>set (cs ! i). f e = off + i \<Longrightarrow>
   distinct (filter (\<lambda>c. length c > 0) cs)"
proof (induction cs arbitrary: off)
  case Nil
  show ?case by simp
next
  case (Cons c cs)
  have tail: "\<forall>i<length cs. \<forall>e\<in>set (cs ! i). f e = Suc off + i"
  proof (intro allI impI ballI)
    fix i e assume "i < length cs" "e \<in> set (cs ! i)"
    then have "Suc i < length (c # cs)" "e \<in> set ((c # cs) ! Suc i)" by simp_all
    with Cons.prems have "f e = off + Suc i" by blast
    then show "f e = Suc off + i" by simp
  qed
  have rest: "distinct (filter (\<lambda>c. length c > 0) cs)"
    using Cons.IH [OF tail] .
  have "c \<notin> set cs" if "c \<noteq> []"
  proof
    assume "c \<in> set cs"
    then obtain j where j: "j < length cs" "cs ! j = c" by (auto simp: in_set_conv_nth)
    from that have h: "hd c \<in> set c" by simp
    have "0 < length (c # cs)" "hd c \<in> set ((c # cs) ! 0)" using h by simp_all
    with Cons.prems have "f (hd c) = off + 0" by blast
    moreover from tail j h have "f (hd c) = Suc off + j" by blast
    ultimately show False by simp
  qed
  with rest show ?case by auto
qed

lemma cluster_returns:
  assumes "1 \<le> numClusters" and "\<forall>i. 0 \<le> random i \<and> random i < 1"
  shows "\<exists>clusters. cluster random vectors numClusters = Inr clusters"
proof (cases "int (length vectors) < numClusters")
  case True
  then show ?thesis by (simp add: cluster_def)
next
  case False
  with assms(1) have ne: "vectors \<noteq> []" by auto
  from initialCentroids_returns [OF ne, of "[0..<nat numClusters]" random] assms(2)
  obtain centroids where c: "initialCentroids random vectors [0..<nat numClusters] = Inr centroids"
    by auto
  from initialCentroids_length [OF c] assms(1) have len: "length centroids = nat numClusters"
    and "centroids \<noteq> []"
    by auto
  from refine_returns [OF this(2) len, of vectors "[]" 0] obtain result where
    "refine vectors (nat numClusters) centroids [] 0 = Inr result"
    by blast
  with False c assms(1) show ?thesis by (simp add: cluster_def)
qed

lemma cluster_parts:
  assumes "vectors \<noteq> []" and "cluster random vectors numClusters = Inr clusters"
  shows "mset (concat clusters) = mset vectors"
    and "\<forall>c\<in>set clusters. c \<noteq> []"
    and "distinct clusters"
    and "\<forall>c1\<in>set clusters. \<forall>c2\<in>set clusters. c1 \<noteq> c2 \<longrightarrow> set c1 \<inter> set c2 = {}"
proof -
  from cluster_cases [OF assms(2)] assms(1) consider
    (all) "clusters = [vectors]"
    | (refined) centroids result where "refine vectors (nat numClusters) centroids [] 0 = Inr result"
        "clusters = filter (\<lambda>c. length c > 0) result"
    by blast
  then have "mset (concat clusters) = mset vectors \<and> (\<forall>c\<in>set clusters. c \<noteq> []) \<and> distinct clusters
      \<and> (\<forall>c1\<in>set clusters. \<forall>c2\<in>set clusters. c1 \<noteq> c2 \<longrightarrow> set c1 \<inter> set c2 = {})"
  proof cases
    case all
    with assms(1) show ?thesis by simp
  next
    case refined
    have "partitions vectors result"
      by (rule refine_partition [OF refined(1)]) (simp add: maxIterations_def)
    then obtain cs where m: "mset (concat result) = mset vectors"
      and l: "\<forall>i<length result. \<forall>e\<in>set (result ! i). bestCluster (vector e) cs = i"
      by (auto simp: partitions_def)
    have 1: "mset (concat clusters) = mset vectors"
      unfolding refined(2) concat_filter_nonempty by (rule m)
    have 2: "\<forall>c\<in>set clusters. c \<noteq> []"
      using refined(2) by auto
    have 3: "distinct clusters"
      unfolding refined(2) by (rule labelled_distinct_nonempty [where off = 0 and f = "\<lambda>e. bestCluster (vector e) cs"]) (use l in simp)
    have 4: "\<forall>c1\<in>set clusters. \<forall>c2\<in>set clusters. c1 \<noteq> c2 \<longrightarrow> set c1 \<inter> set c2 = {}"
    proof (intro ballI impI)
      fix c1 c2 assume "c1 \<in> set clusters" "c2 \<in> set clusters" "c1 \<noteq> c2"
      with refined(2) have "c1 \<in> set result" "c2 \<in> set result" "c1 \<noteq> c2" by auto
      with l show "set c1 \<inter> set c2 = {}" by (rule labelled_disjoint)
    qed
    from 1 2 3 4 show ?thesis by blast
  qed
  then show "mset (concat clusters) = mset vectors"
    and "\<forall>c\<in>set clusters. c \<noteq> []"
    and "distinct clusters"
    and "\<forall>c1\<in>set clusters. \<forall>c2\<in>set clusters. c1 \<noteq> c2 \<longrightarrow> set c1 \<inter> set c2 = {}"
    by blast+
qed

text \<open>
  Claim C4. On a non-empty store, whatever \<^verbatim>\<open>numClusters\<close> and the draws, the clusters
  that \<^verbatim>\<open>cluster\<close> returns partition the store: together they hold every stored entry
  exactly as often as the store does, none of them is empty, no two of them are the same,
  and two different ones share no entry; when the stored entries are pairwise different
  no entry occurs twice anywhere in the clusters. For every \<open>numClusters \<ge> 1\<close> the call
  does return clusters, the draws being those of \<^verbatim>\<open>Math.random()\<close>, in \<open>[0, 1)\<close>. (For
  \<open>numClusters \<le> 0\<close> on a non-empty store it raises and returns nothing, see
  \<open>cluster_zero_nonempty\<close> and \<open>cluster_negative\<close>.)
\<close>

theorem cluster_partition:
  assumes "vectors \<noteq> []"
  shows "(\<forall>clusters. cluster random vectors numClusters = Inr clusters \<longrightarrow>
            mset (concat clusters) = mset vectors
            \<and> (\<forall>c\<in>set clusters. c \<noteq> [])
            \<and> distinct clusters
            \<and> (\<forall>c1\<in>set clusters. \<forall>c2\<in>set clusters. c1 \<noteq> c2 \<longrightarrow> set c1 \<inter> set c2 = {})
            \<and> (distinct vectors \<longrightarrow> distinct (concat clusters)))
       \<and> (1 \<le> numClusters \<and> (\<forall>i. 0 \<le> random i \<and> random i < 1) \<longrightarrow>
            (\<exists>clusters. cluster random vectors numClusters = Inr clusters))"
proof (intro conjI allI impI)
  fix clusters
  assume returned: "cluster random vectors numClusters = Inr clusters"
  note parts = cluster_parts [OF assms returned]
  from parts show "mset (concat clusters) = mset vectors"
    and "\<forall>c\<in>set clusters. c \<noteq> []"
    and "distinct clusters"
    and "\<forall>c1\<in>set clusters. \<forall>c2\<in>set clusters. c1 \<noteq> c2 \<longrightarrow> set c1 \<inter> set c2 = {}"
    by blast+
  assume "distinct vectors"
  with parts(1) show "distinct (concat clusters)"
    by (metis mset_eq_imp_distinct_iff)
next
  assume "1 \<le> numClusters \<and> (\<forall>i. 0 \<le> random i \<and> random i < 1)"
  then show "\<exists>clusters. cluster random vectors numClusters = Inr clusters"
    by (intro cluster_returns) simp_all
qed

theorem cluster_partition_witness:
  "\<exists>clusters. cluster draws_apart store_pm 2 = Inr clusters
      \<and> mset (concat clusters) = mset store_pm
      \<and> list_all (\<lambda>c. c \<noteq> []) clusters
      \<and> distinct (concat clusters)"
proof -
  have ne: "store_pm \<noteq> []"
    by (simp add: store_pm_def)
  have d: "distinct store_pm"
    by (simp add: store_pm_def plain_entry_def)
  have r: "1 \<le> (2::int) \<and> (\<forall>i. 0 \<le> draws_apart i \<and> draws_apart i < 1)"
    by (simp add: draws_apart_def)
  note inst = cluster_partition [OF ne, of draws_apart 2]
  from inst r obtain clusters where c: "cluster draws_apart store_pm 2 = Inr clusters"
    by blast
  from inst c d have "mset (concat clusters) = mset store_pm"
    and "\<forall>c\<in>set clusters. c \<noteq> []" and "distinct (concat clusters)"
    by blast+
  with c show ?thesis
    by (intro exI [of _ clusters]) (simp add: list_all_iff)
qed

section \<open>When \<^verbatim>\<open>cluster\<close> returns, and what it depends on\<close>

lemma cluster_few_entries:
  "int (length vectors) < numClusters \<Longrightarrow> cluster random vectors numClusters = Inr [vectors]"
  by (simp add: cluster_def)

lemma cluster_negative:
  "numClusters < 0 \<Longrightarrow> cluster random vectors numClusters = Inl RangeError"
  by (simp add: cluster_def)

lemma cluster_zero_nonempty:
  "vectors \<noteq> [] \<Longrightarrow> cluster random vectors 0 = Inl TypeError"
  by (cases vectors)
     (simp_all add: cluster_def refine.simps [of _ _ _ _ 0] maxIterations_def refinement_round_def Let_def)

text \<open>
  Claim C6, as amended. \<^verbatim>\<open>cluster\<close> has no failure for missing data. For every
  \<open>numClusters \<ge> 1\<close> it returns a list of clusters: on the empty store the list whose
  only cluster is empty, on a store with fewer entries than \<open>numClusters\<close> the list whose
  only cluster is the whole store, and otherwise the non-empty clusters of the
  refinement. (The draws are those of \<^verbatim>\<open>Math.random()\<close>, in \<open>[0, 1)\<close>.)
\<close>

theorem cluster_no_insufficient_data:
  assumes "1 \<le> numClusters" and "\<forall>i. 0 \<le> random i \<and> random i < 1"
  shows "(\<exists>clusters. cluster random vectors numClusters = Inr clusters)
       \<and> (vectors = [] \<longrightarrow> cluster random vectors numClusters = Inr [[]])
       \<and> (int (length vectors) < numClusters \<longrightarrow> cluster random vectors numClusters = Inr [vectors])"
  using cluster_returns [OF assms] cluster_few_entries [of vectors numClusters random] assms(1)
  by auto

theorem cluster_no_insufficient_data_witness:
  "(\<exists>clusters. cluster draws_apart store_pm 2 = Inr clusters)
   \<and> (\<exists>clusters. cluster draws_apart [] 2 = Inr clusters) \<and> cluster draws_apart [] 2 = Inr [[]]"
proof -
  have h1: "(1::int) \<le> 2"
    by simp
  have h2: "\<forall>i. 0 \<le> draws_apart i \<and> draws_apart i < 1"
    by (simp add: draws_apart_def)
  from cluster_no_insufficient_data [OF h1 h2, of store_pm]
    cluster_no_insufficient_data [OF h1 h2, of "[]"]
  show ?thesis
    by blast
qed

text \<open>
  Claim C6 as stated fails: on the empty store with \<open>numClusters = 3\<close> the call returns
  one empty cluster.
\<close>

theorem cluster_empty_store_counterexample:
  "cluster draws_same [] 3 = Inr [[]]"
  by (simp add: cluster_def)

text \<open>
  Claim C9, as amended. \<^verbatim>\<open>cluster\<close> takes no random source: it calls the ambient
  \<^verbatim>\<open>Math.random()\<close>. Its result is determined by the store, \<open>numClusters\<close> and the
  first \<open>numClusters\<close> values that \<^verbatim>\<open>Math.random()\<close> returns during the call, through
  the indices \<open>floor(draw * size)\<close>: two calls that draw the same indices return the same
  clusters.
\<close>

theorem cluster_determined_by_draws:
  assumes "\<forall>i<nat numClusters. \<lfloor>r1 i * real (length vectors)\<rfloor> = \<lfloor>r2 i * real (length vectors)\<rfloor>"
  shows "cluster r1 vectors numClusters = cluster r2 vectors numClusters"
proof -
  have "initialCentroids r1 vectors [0..<nat numClusters] = initialCentroids r2 vectors [0..<nat numClusters]"
    by (rule initialCentroids_cong) (use assms in simp)
  then show ?thesis by (simp add: cluster_def)
qed

theorem cluster_determined_by_draws_witness:
  "cluster draws_apart store_pm 2 = cluster draws_apart_too store_pm 2"
proof -
  have "\<forall>i<nat 2. \<lfloor>draws_apart i * real (length store_pm)\<rfloor> = \<lfloor>draws_apart_too i * real (length store_pm)\<rfloor>"
    by (simp add: draws_apart_def draws_apart_too_def store_pm_def)
  then show ?thesis
    by (rule cluster_determined_by_draws)
qed

text \<open>
  Claim C9 as stated fails: the same store and the same \<open>numClusters\<close> give one cluster
  under one sequence of draws and two clusters under another, and the caller chooses
  neither.
\<close>

theorem cluster_draws_counterexample:
  "cluster draws_same store_pm 2 = Inr [[plain_entry ''plus'' [Fin 1], plain_entry ''minus'' [Fin (- 1)]]]
   \<and> cluster draws_apart store_pm 2 = Inr [[plain_entry ''plus'' [Fin 1]], [plain_entry ''minus'' [Fin (- 1)]]]
   \<and> cluster draws_same store_pm 2 \<noteq> cluster draws_apart store_pm 2"
  by (simp add: cluster_same cluster_apart)

section \<open>The bound on the refinement\<close>

lemma number_le_not_less: "(x::number) \<le> y \<Longrightarrow> \<not> y < x"
  by (cases x; cases y) (auto simp: less_eq_number_def)

lemma updateCentroids_changed:
  "updateCentroids centroids clusters = Inr (centroids', changed) \<Longrightarrow>
   centroids' = recomputed centroids clusters
   \<and> (changed \<longleftrightarrow>
        list_ex (\<lambda>(c, members). members \<noteq> [] \<and> cosineSimilarity c (newCentroid c members) < Fin (99 / 100))
          (zip centroids clusters))"
proof (induction centroids clusters arbitrary: centroids' changed rule: updateCentroids.induct)
  case (1 clusters)
  then show ?case by (simp add: recomputed_def)
next
  case (2 c centroids)
  then show ?case by simp
next
  case (3 c centroids members clusters)
  from "3.prems" obtain cs ch where rest: "updateCentroids centroids clusters = Inr (cs, ch)"
    by (auto simp: Let_def split: if_splits sum.splits)
  show ?case
  proof (cases "length members = 0")
    case True
    with "3.IH"(1) [OF True rest] "3.prems" rest show ?thesis
      by (simp add: recomputed_def)
  next
    case False
    with "3.IH"(2) [OF False refl refl rest] "3.prems" rest show ?thesis
      by (auto simp: recomputed_def Let_def)
  qed
qed

lemma converged_unchanged:
  assumes "refinement_round vectors k centroids = Inr (clusters, centroids', changed)"
  shows "centroids' = recomputed centroids clusters" and "converged centroids clusters \<Longrightarrow> \<not> changed"
proof -
  from assms have u: "updateCentroids centroids clusters = Inr (centroids', changed)"
    by (auto simp: refinement_round_def split: sum.splits)
  from updateCentroids_changed [OF u] show "centroids' = recomputed centroids clusters"
    by simp
  assume "converged centroids clusters"
  then have "\<not> list_ex (\<lambda>(c, members). members \<noteq> [] \<and> cosineSimilarity c (newCentroid c members) < Fin (99 / 100))
          (zip centroids clusters)"
    by (auto simp: converged_def list_all_iff list_ex_iff dest: number_le_not_less)
  with updateCentroids_changed [OF u] show "\<not> changed" by simp
qed

lemma refine_rounds:
  "iterations < maxIterations \<Longrightarrow>
   \<exists>n. iterations + n < maxIterations \<and>
     (\<exists>cs. centroids_after vectors k centroids n = Some cs \<and>
        (case refinement_round vectors k cs of
           Inl e \<Rightarrow> refine vectors k centroids clusters iterations = Inl e
         | Inr (clusters', centroids', changed) \<Rightarrow>
             refine vectors k centroids clusters iterations = Inr clusters'
             \<and> (changed \<longrightarrow> Suc (iterations + n) = maxIterations)))"
proof (induction vectors k centroids clusters iterations rule: refine.induct)
  case (1 vectors k centroids clusters iterations)
  note less = "1.prems"
  show ?case
  proof (cases "refinement_round vectors k centroids")
    case (Inl e)
    with less have "refine vectors k centroids clusters iterations = Inl e"
      by (subst refine.simps) simp
    with Inl less show ?thesis
      by (intro exI [of _ 0] exI [of _ centroids] conjI) simp_all
  next
    case (Inr triple)
    then obtain clusters' centroids' changed where
      round: "refinement_round vectors k centroids = Inr (clusters', centroids', changed)"
      by (cases triple) auto
    show ?thesis
    proof (cases changed)
      case False
      with less round have "refine vectors k centroids clusters iterations = Inr clusters'"
        by (subst refine.simps) simp
      with round less False show ?thesis
        by (intro exI [of _ 0] exI [of _ centroids] conjI) simp_all
    next
      case changed: True
      have step: "refine vectors k centroids clusters iterations
                  = refine vectors k centroids' clusters' (iterations + 1)"
        using less round changed by (subst refine.simps) simp
      show ?thesis
      proof (cases "iterations + 1 < maxIterations")
        case False
        then have "refine vectors k centroids' clusters' (iterations + 1) = Inr clusters'"
          by (subst refine.simps) simp
        with step round less False show ?thesis
          by (intro exI [of _ 0] exI [of _ centroids] conjI) simp_all
      next
        case True
        from "1.IH" [OF less round refl refl _ True] changed obtain n cs where
          n: "iterations + 1 + n < maxIterations"
          and cs: "centroids_after vectors k centroids' n = Some cs"
          and out: "(case refinement_round vectors k cs of
             Inl e \<Rightarrow> refine vectors k centroids' clusters' (iterations + 1) = Inl e
           | Inr (clusters'', centroids'', changed) \<Rightarrow>
               refine vectors k centroids' clusters' (iterations + 1) = Inr clusters''
               \<and> (changed \<longrightarrow> Suc (iterations + 1 + n) = maxIterations))"
          by auto
        have "centroids_after vectors k centroids (Suc n) = Some cs"
          using round changed cs by simp
        moreover have "iterations + Suc n < maxIterations"
          using n by simp
        moreover have "(case refinement_round vectors k cs of
             Inl e \<Rightarrow> refine vectors k centroids clusters iterations = Inl e
           | Inr (clusters'', centroids'', changed) \<Rightarrow>
               refine vectors k centroids clusters iterations = Inr clusters''
               \<and> (changed \<longrightarrow> Suc (iterations + Suc n) = maxIterations))"
          using out step by (auto split: sum.splits)
        ultimately show ?thesis by blast
      qed
    qed
  qed
qed

lemma centroids_after_earlier:
  "centroids_after vectors k centroids n = Some cs \<Longrightarrow> m < n \<Longrightarrow>
   \<exists>cm clusters centroids'. centroids_after vectors k centroids m = Some cm
      \<and> refinement_round vectors k cm = Inr (clusters, centroids', True)"
proof (induction m arbitrary: centroids n)
  case 0
  then obtain n' where "n = Suc n'" by (cases n) auto
  with "0.prems"(1) show ?case
    by (auto split: sum.splits if_splits)
next
  case (Suc m)
  then obtain n' where n: "n = Suc n'" "m < n'" by (cases n) auto
  with Suc.prems(1) obtain clusters centroids' where
    round: "refinement_round vectors k centroids = Inr (clusters, centroids', True)"
    and rest: "centroids_after vectors k centroids' n' = Some cs"
    by (auto split: sum.splits if_splits)
  from Suc.IH [OF rest n(2)] round show ?case
    by simp
qed

text \<open>
  Claim C5. The refinement loop of \<^verbatim>\<open>cluster\<close> always ends (\<open>refine\<close> is a total
  function, its termination proved above), after at most \<open>maxIterations = 100\<close> passes
  through its body: its outcome is that of round \<open>n + 1\<close> for some \<open>n < 100\<close>; the \<open>n\<close>
  rounds before it all ended with \<^verbatim>\<open>changed\<close> set, and none of them had converged;
  round \<open>n + 1\<close> either raised, or ended with \<^verbatim>\<open>changed\<close> unset, or was the
  hundredth. In every round a centroid whose cluster is empty stays as it is, the others
  are recomputed, and when every recomputed centroid has a similarity of at least
  \<open>0.99\<close> to its previous value \<^verbatim>\<open>changed\<close> stays unset, so the loop stops with that
  round.
\<close>

theorem refinement_terminates:
  "maxIterations = 100
   \<and> (\<exists>n<maxIterations. \<exists>cs. centroids_after vectors k centroids n = Some cs
        \<and> (case refinement_round vectors k cs of
             Inl e \<Rightarrow> refine vectors k centroids [] 0 = Inl e
           | Inr (clusters, centroids', changed) \<Rightarrow>
               refine vectors k centroids [] 0 = Inr clusters
               \<and> (changed \<longrightarrow> Suc n = maxIterations))
        \<and> (\<forall>m<n. \<exists>cm clusters centroids'. centroids_after vectors k centroids m = Some cm
               \<and> refinement_round vectors k cm = Inr (clusters, centroids', True)
               \<and> \<not> converged cm clusters))
   \<and> (\<forall>cs clusters centroids' changed.
         refinement_round vectors k cs = Inr (clusters, centroids', changed) \<longrightarrow>
         centroids' = recomputed cs clusters \<and> (converged cs clusters \<longrightarrow> \<not> changed))"
proof (intro conjI)
  show "maxIterations = 100"
    by (simp add: maxIterations_def)
  have "0 < maxIterations"
    by (simp add: maxIterations_def)
  from refine_rounds [OF this, of vectors k centroids "[]"] obtain n cs where
    n: "n < maxIterations" and after: "centroids_after vectors k centroids n = Some cs"
    and out: "(case refinement_round vectors k cs of
             Inl e \<Rightarrow> refine vectors k centroids [] 0 = Inl e
           | Inr (clusters, centroids', changed) \<Rightarrow>
               refine vectors k centroids [] 0 = Inr clusters
               \<and> (changed \<longrightarrow> Suc n = maxIterations))"
    unfolding add_0 by blast
  have earlier: "\<forall>m<n. \<exists>cm clusters centroids'. centroids_after vectors k centroids m = Some cm
               \<and> refinement_round vectors k cm = Inr (clusters, centroids', True)
               \<and> \<not> converged cm clusters"
  proof (intro allI impI)
    fix m assume "m < n"
    from centroids_after_earlier [OF after this] obtain cm clusters centroids' where
      *: "centroids_after vectors k centroids m = Some cm"
         "refinement_round vectors k cm = Inr (clusters, centroids', True)"
      by blast
    from converged_unchanged(2) [OF *(2)] have "\<not> converged cm clusters"
      by blast
    with * show "\<exists>cm clusters centroids'. centroids_after vectors k centroids m = Some cm
               \<and> refinement_round vectors k cm = Inr (clusters, centroids', True)
               \<and> \<not> converged cm clusters"
      by blast
  qed
  from n after out earlier
  show "\<exists>n<maxIterations. \<exists>cs. centroids_after vectors k centroids n = Some cs
        \<and> (case refinement_round vectors k cs of
             Inl e \<Rightarrow> refine vectors k centroids [] 0 = Inl e
           | Inr (clusters, centroids', changed) \<Rightarrow>
               refine vectors k centroids [] 0 = Inr clusters
               \<and> (changed \<longrightarrow> Suc n = maxIterations))
        \<and> (\<forall>m<n. \<exists>cm clusters centroids'. centroids_after vectors k centroids m = Some cm
               \<and> refinement_round vectors k cm = Inr (clusters, centroids', True)
               \<and> \<not> converged cm clusters)"
    by blast
  show "\<forall>cs clusters centroids' changed.
         refinement_round vectors k cs = Inr (clusters, centroids', changed) \<longrightarrow>
         centroids' = recomputed cs clusters \<and> (converged cs clusters \<longrightarrow> \<not> changed)"
    using converged_unchanged by blast
qed

theorem refinement_terminates_witness:
  "refine store_pm 2 [[Fin 1], [Fin (- 1)]] [] 0
     = Inr [[plain_entry ''plus'' [Fin 1]], [plain_entry ''minus'' [Fin (- 1)]]]
   \<and> converged [[Fin 1], [Fin (- 1)]] [[plain_entry ''plus'' [Fin 1]], [plain_entry ''minus'' [Fin (- 1)]]]
   \<and> recomputed [[Fin 1], [Fin (- 1)]] [[plain_entry ''plus'' [Fin 1]], [plain_entry ''minus'' [Fin (- 1)]]]
       = [[Fin 1], [Fin (- 1)]]"
proof -
  let ?c = "[[Fin 1], [Fin (- 1)]]"
  let ?cl = "[[plain_entry ''plus'' [Fin 1]], [plain_entry ''minus'' [Fin (- 1)]]]"
  note inst = refinement_terminates [of store_pm 2 ?c]
  from inst obtain n cs where after: "centroids_after store_pm 2 ?c n = Some cs"
    and out: "(case refinement_round store_pm 2 cs of
             Inl e \<Rightarrow> refine store_pm 2 ?c [] 0 = Inl e
           | Inr (clusters, centroids', changed) \<Rightarrow>
               refine store_pm 2 ?c [] 0 = Inr clusters
               \<and> (changed \<longrightarrow> Suc n = maxIterations))"
    by blast
  have "n = 0"
    using after by (cases n) (simp_all add: round_apart)
  with after have "cs = ?c"
    by simp
  with out have 1: "refine store_pm 2 ?c [] 0 = Inr ?cl"
    by (simp add: round_apart)
  have 2: "converged ?c ?cl"
    by (simp add: converged_def plain_entry_def newCentroid_def cos_pp cos_mm less_eq_number_def)
  from inst [THEN conjunct2, THEN conjunct2, rule_format, OF round_apart]
  have 3: "recomputed ?c ?cl = ?c"
    by simp
  from 1 2 3 show ?thesis
    by blast
qed

section \<open>The retrieval pipeline\<close>

lemma generate_single:
  "generate ollama [text]
     = ([EmbeddingsRequest ''nomic-embed-text'' text],
        case ollama_embeddings ollama ''nomic-embed-text'' text of Inl e \<Rightarrow> Inl e | Inr v \<Rightarrow> Inr [v])"
  by (simp split: sum.splits)

lemma rag_search_Inr:
  "ollama_embeddings ollama ''nomic-embed-text'' question = Inr qv \<Longrightarrow>
   rag_search ollama r question topK
     = ([EmbeddingsRequest ''nomic-embed-text'' question],
        Inr (slice0 (sort_by (\<lambda>a b. ranked_similarity b - ranked_similarity a) (ranked_all r qv)) topK))"
  by (simp add: rag_search_def generate_single ranked_all_def)

lemma rag_search_Inl:
  "ollama_embeddings ollama ''nomic-embed-text'' question = Inl e \<Longrightarrow>
   rag_search ollama r question topK = ([EmbeddingsRequest ''nomic-embed-text'' question], Inl e)"
  by (simp add: rag_search_def generate_single)

lemma ranked_all_elem:
  assumes "d \<in> set (ranked_all r qv)"
  shows "index d < length (embeddings r)"
    and "ranked_similarity d = cosineSimilarity qv (embeddings r ! index d)"
    and "length (embeddings r) \<le> length (documents r) \<Longrightarrow> ranked_document d = Some (documents r ! index d)"
proof -
  from assms obtain e i where ei: "(e, i) \<in> set (zip (embeddings r) [0..<length (embeddings r)])"
    and d: "d = \<lparr>index = i, ranked_similarity = cosineSimilarity qv e,
             ranked_document = (if i < length (documents r) then Some (documents r ! i) else None)\<rparr>"
    by (auto simp: ranked_all_def)
  from ei obtain j where "j < length (embeddings r)" "e = embeddings r ! j" "i = j"
    by (auto simp: in_set_zip)
  with d show "index d < length (embeddings r)"
    and "ranked_similarity d = cosineSimilarity qv (embeddings r ! index d)"
    and "length (embeddings r) \<le> length (documents r) \<Longrightarrow> ranked_document d = Some (documents r ! index d)"
    by auto
qed

lemma those_map_Some: "\<forall>x\<in>set xs. f x = Some (g x) \<Longrightarrow> those (map f xs) = Some (map g xs)"
  by (induction xs) simp_all

lemma map2_map_same: "map2 f (map g xs) xs = map (\<lambda>x. f (g x) x) xs"
  by (induction xs) simp_all

lemma query_after_search:
  assumes "rag_search ollama r question topK = (sent, Inr relevantDocs)"
    and "\<forall>d\<in>set relevantDocs. ranked_document d = Some (documents r ! index d)"
  shows "query ollama r question topK
           = (sent @ [ChatRequest ''llama3.2'' (prompt_of (context_of r relevantDocs) question)],
              case ollama_chat ollama ''llama3.2'' (prompt_of (context_of r relevantDocs) question) of
                Inl e \<Rightarrow> Inl e
              | Inr text \<Rightarrow> Inr \<lparr>answer = text, sources = sources_of r relevantDocs\<rparr>)"
proof -
  have "those (map ranked_document relevantDocs) = Some (map (\<lambda>d. documents r ! index d) relevantDocs)"
    using assms(2) by (rule those_map_Some)
  then show ?thesis
    using assms(1)
    by (simp add: query_def Let_def context_of_def sources_of_def map2_map_same comp_def split: sum.splits)
qed

text \<open>
  Claim C7, as amended. In a state where every stored embedding has its document (which
  \<^verbatim>\<open>addDocument\<close> maintains, see \<open>addDocument_aligned\<close>), and when the embedding request
  for the question succeeds, \<^verbatim>\<open>query\<close> sends exactly two requests, the embedding request
  and then one chat request. The prompt of the chat request holds the contents of the
  retrieved documents, in the order \<^verbatim>\<open>SimpleRAG.search\<close> ranked them, joined by a blank
  line; the result is the generated text (or the chat request's failure) with the
  \<^verbatim>\<open>{id, similarity}\<close> of the retrieved documents in that same order. The ranked order is
  non-increasing in similarity whenever no stored embedding has a NaN similarity to the
  query embedding.
\<close>

theorem query_pipeline:
  assumes "length (embeddings r) \<le> length (documents r)"
    and "ollama_embeddings ollama ''nomic-embed-text'' question = Inr qv"
  shows "\<exists>relevantDocs.
           rag_search ollama r question topK
             = ([EmbeddingsRequest ''nomic-embed-text'' question], Inr relevantDocs)
           \<and> fst (query ollama r question topK)
               = [EmbeddingsRequest ''nomic-embed-text'' question,
                  ChatRequest ''llama3.2'' (prompt_of (context_of r relevantDocs) question)]
           \<and> length (filter is_chat (fst (query ollama r question topK))) = 1
           \<and> snd (query ollama r question topK)
               = (case ollama_chat ollama ''llama3.2'' (prompt_of (context_of r relevantDocs) question) of
                    Inl e \<Rightarrow> Inl e
                  | Inr text \<Rightarrow> Inr \<lparr>answer = text, sources = sources_of r relevantDocs\<rparr>)
           \<and> (\<forall>d\<in>set relevantDocs. index d < length (embeddings r)
                  \<and> ranked_similarity d = cosineSimilarity qv (embeddings r ! index d))
           \<and> ((\<forall>v\<in>set (embeddings r). cosineSimilarity qv v \<noteq> NaN)
                  \<longrightarrow> non_increasing (map ranked_similarity relevantDocs))
           \<and> (0 \<le> topK \<longrightarrow> length relevantDocs = min (nat topK) (length (embeddings r)))"
proof -
  let ?sorted = "sort_by (\<lambda>a b. ranked_similarity b - ranked_similarity a) (ranked_all r qv)"
  let ?docs = "slice0 ?sorted topK"
  have search: "rag_search ollama r question topK
                  = ([EmbeddingsRequest ''nomic-embed-text'' question], Inr ?docs)"
    using assms(2) by (rule rag_search_Inr)
  have sub: "set ?docs \<subseteq> set (ranked_all r qv)"
    using set_slice0 [of ?sorted topK] by (simp add: set_sort_by)
  have docs: "\<forall>d\<in>set ?docs. ranked_document d = Some (documents r ! index d)"
    using sub ranked_all_elem(3) [OF _ assms(1)] by blast
  note q = query_after_search [OF search docs]
  have 1: "fst (query ollama r question topK)
             = [EmbeddingsRequest ''nomic-embed-text'' question,
                ChatRequest ''llama3.2'' (prompt_of (context_of r ?docs) question)]"
    by (simp add: q)
  have 2: "length (filter is_chat (fst (query ollama r question topK))) = 1"
    by (simp add: 1)
  have 3: "snd (query ollama r question topK)
             = (case ollama_chat ollama ''llama3.2'' (prompt_of (context_of r ?docs) question) of
                  Inl e \<Rightarrow> Inl e
                | Inr text \<Rightarrow> Inr \<lparr>answer = text, sources = sources_of r ?docs\<rparr>)"
    by (simp add: q)
  have 4: "\<forall>d\<in>set ?docs. index d < length (embeddings r)
              \<and> ranked_similarity d = cosineSimilarity qv (embeddings r ! index d)"
    using sub ranked_all_elem(1,2) by blast
  have 5: "(\<forall>v\<in>set (embeddings r). cosineSimilarity qv v \<noteq> NaN)
             \<longrightarrow> non_increasing (map ranked_similarity ?docs)"
  proof
    assume nn: "\<forall>v\<in>set (embeddings r). cosineSimilarity qv v \<noteq> NaN"
    have "\<forall>d\<in>set (ranked_all r qv). ranked_similarity d \<noteq> NaN"
    proof
      fix d assume d: "d \<in> set (ranked_all r qv)"
      from ranked_all_elem(1,2) [OF d] nn show "ranked_similarity d \<noteq> NaN"
        by simp
    qed
    then have "sorted_wrt (\<lambda>a b. ranked_similarity b \<le> ranked_similarity a) ?sorted"
      by (rule sorted_sort_by)
    then have "sorted_wrt (\<lambda>a b. ranked_similarity b \<le> ranked_similarity a) ?docs"
      by (simp add: slice0_def sorted_wrt_take)
    then show "non_increasing (map ranked_similarity ?docs)"
      by (simp add: non_increasing_def sorted_wrt_map)
  qed
  have 6: "0 \<le> topK \<longrightarrow> length ?docs = min (nat topK) (length (embeddings r))"
    by (simp add: slice0_def length_sort_by ranked_all_def min.commute)
  from search 1 2 3 4 5 6 show ?thesis
    by blast
qed

lemma addDocument_aligned:
  "length (embeddings r) \<le> length (documents r) \<Longrightarrow>
   length (embeddings (fst (addDocument ollama r ident content_text md)))
     \<le> length (documents (fst (addDocument ollama r ident content_text md)))"
  by (simp add: addDocument_def generate_single Let_def split: sum.splits)

lemma rag_two_search:
  "rag_search east_client rag_two ''q'' 2
     = ([EmbeddingsRequest ''nomic-embed-text'' ''q''],
        Inr [\<lparr>index = 1, ranked_similarity = Fin 1,
               ranked_document = Some \<lparr>doc_id = ''js'', content = ''JavaScript'', doc_metadata = None\<rparr>\<rparr>,
             \<lparr>index = 0, ranked_similarity = Fin 0,
               ranked_document = Some \<lparr>doc_id = ''py'', content = ''Python'', doc_metadata = None\<rparr>\<rparr>])"
  by (simp add: rag_search_def east_client_def rag_two_def slice0_def numeral_2_eq_2
        cosineSimilarity_def reduce_def elem_at_def)

theorem query_pipeline_witness:
  "query east_client rag_two ''q'' 2
     = ([EmbeddingsRequest ''nomic-embed-text'' ''q'',
         ChatRequest ''llama3.2'' (prompt_of (''JavaScript'' @ newline @ newline @ ''Python'') ''q'')],
        Inr \<lparr>answer = ''ok'',
             sources = [\<lparr>source_id = ''js'', source_similarity = Fin 1\<rparr>,
                        \<lparr>source_id = ''py'', source_similarity = Fin 0\<rparr>]\<rparr>)"
proof -
  have h1: "length (embeddings rag_two) \<le> length (documents rag_two)"
    by (simp add: rag_two_def)
  have h2: "ollama_embeddings east_client ''nomic-embed-text'' ''q'' = Inr [Fin 1, Fin 0]"
    by (simp add: east_client_def)
  from query_pipeline [OF h1 h2, of 2] obtain relevantDocs where
    s: "rag_search east_client rag_two ''q'' 2 = ([EmbeddingsRequest ''nomic-embed-text'' ''q''], Inr relevantDocs)"
    and f: "fst (query east_client rag_two ''q'' 2)
               = [EmbeddingsRequest ''nomic-embed-text'' ''q'',
                  ChatRequest ''llama3.2'' (prompt_of (context_of rag_two relevantDocs) ''q'')]"
    and a: "snd (query east_client rag_two ''q'' 2)
               = (case ollama_chat east_client ''llama3.2'' (prompt_of (context_of rag_two relevantDocs) ''q'') of
                    Inl e \<Rightarrow> Inl e
                  | Inr text \<Rightarrow> Inr \<lparr>answer = text, sources = sources_of rag_two relevantDocs\<rparr>)"
    by blast
  from s have docs: "relevantDocs = [\<lparr>index = 1, ranked_similarity = Fin 1,
               ranked_document = Some \<lparr>doc_id = ''js'', content = ''JavaScript'', doc_metadata = None\<rparr>\<rparr>,
             \<lparr>index = 0, ranked_similarity = Fin 0,
               ranked_document = Some \<lparr>doc_id = ''py'', content = ''Python'', doc_metadata = None\<rparr>\<rparr>]"
    by (simp add: rag_two_search)
  have c: "context_of rag_two relevantDocs = ''JavaScript'' @ newline @ newline @ ''Python''"
    by (simp add: docs context_of_def rag_two_def)
  have so: "sources_of rag_two relevantDocs
              = [\<lparr>source_id = ''js'', source_similarity = Fin 1\<rparr>,
                 \<lparr>source_id = ''py'', source_similarity = Fin 0\<rparr>]"
    by (simp add: docs sources_of_def rag_two_def)
  have "query east_client rag_two ''q'' 2
          = (fst (query east_client rag_two ''q'' 2), snd (query east_client rag_two ''q'' 2))"
    by simp
  also have "\<dots> = ([EmbeddingsRequest ''nomic-embed-text'' ''q'',
         ChatRequest ''llama3.2'' (prompt_of (''JavaScript'' @ newline @ newline @ ''Python'') ''q'')],
        Inr \<lparr>answer = ''ok'',
             sources = [\<lparr>source_id = ''js'', source_similarity = Fin 1\<rparr>,
                        \<lparr>source_id = ''py'', source_similarity = Fin 0\<rparr>]\<rparr>)"
    unfolding f a c so by (simp add: east_client_def)
  finally show ?thesis .
qed

text \<open>
  Claim C7 as stated fails where a stored embedding is the zero vector: its similarity is
  NaN, and the sources come back with similarity \<open>0\<close> ahead of similarity \<open>1\<close>. In any
  order of these three sources a NaN stands next to a number.
\<close>

theorem query_unsorted_counterexample:
  "snd (query east_client rag_zero ''q'' 3)
     = Inr \<lparr>answer = ''ok'',
            sources = [\<lparr>source_id = ''north'', source_similarity = Fin 0\<rparr>,
                       \<lparr>source_id = ''zero'', source_similarity = NaN\<rparr>,
                       \<lparr>source_id = ''east'', source_similarity = Fin 1\<rparr>]\<rparr>
   \<and> \<not> non_increasing [Fin 0, NaN, Fin 1]"
  by (simp add: query_def rag_search_def east_client_def rag_zero_def slice0_def
        cosineSimilarity_def reduce_def elem_at_def non_increasing_def less_eq_number_def)

end
